theory Spec2Isabelle
  imports Complex_Main "HOL-Library.Word" "HOL-Library.Signed_Division" "HOL-Library.Log_Nat"
begin

unbundle bit_operations_syntax

section \<open>The Hanabi game state of \<open>hanabi_state.cc\<close>\<close>

text \<open>
  The development embeds \<open>hanabi_lib/hanabi_state.cc\<close>: the card supply
  \<open>HanabiState::HanabiDeck\<close> and the game state \<open>HanabiState\<close>. C++ \<open>int\<close> values are
  HOL integers (no claim depends on 32-bit overflow), every \<open>REQUIRE\<close>, \<open>assert\<close> and
  \<open>std::abort\<close> of the source is an error value, and so is every read or write of a
  \<open>std::vector\<close> outside its bounds, which C++ leaves undefined.
\<close>

subsection \<open>Errors and checked vector access\<close>

datatype error =
    RequireFailed  \<comment> \<open>\<open>REQUIRE(...)\<close> does not hold\<close>
  | AssertFailed   \<comment> \<open>\<open>assert(...)\<close> does not hold\<close>
  | Aborted        \<comment> \<open>\<open>std::abort()\<close>\<close>
  | OutOfRange     \<comment> \<open>a vector element outside the vector (undefined behaviour)\<close>
  | DivideByZero   \<comment> \<open>integer division by zero (undefined behaviour)\<close>

text \<open>Sequencing of fallible steps: the first error ends the computation.\<close>

definition ebind :: "error + 'a \<Rightarrow> ('a \<Rightarrow> error + 'b) \<Rightarrow> error + 'b" where
  "ebind r f = (case r of Inl e \<Rightarrow> Inl e | Inr x \<Rightarrow> f x)"

text \<open>\<open>v[i]\<close> for a \<open>std::vector\<close> and an \<open>int\<close> index.\<close>

definition elem :: "'a list \<Rightarrow> int \<Rightarrow> error + 'a" where
  "elem xs i = (if 0 \<le> i \<and> i < int (length xs) then Inr (xs ! nat i) else Inl OutOfRange)"

text \<open>\<open>v[i] = x\<close>.\<close>

definition put :: "'a list \<Rightarrow> int \<Rightarrow> 'a \<Rightarrow> error + 'a list" where
  "put xs i x = (if 0 \<le> i \<and> i < int (length xs) then Inr (xs[nat i := x]) else Inl OutOfRange)"

text \<open>
  The usual arithmetic conversion of a signed integer that meets a \<open>size_t\<close> in a
  comparison or in \<open>%\<close>: the value modulo \<open>2^64\<close>.
\<close>

definition to_size_t :: "int \<Rightarrow> int" where
  "to_size_t i = i mod 2 ^ 64"

subsection \<open>Cards\<close>

text \<open>
  Modelled from the spec: the value type \<open>HanabiCard\<close> (\<open>hanabi_card.h\<close> is not part of
  the sources at hand). A card is a colour and a rank, or the explicit invalid
  sentinel that the default constructor \<open>HanabiCard()\<close> builds; a valid card has
  neither component negative.
\<close>

datatype HanabiCard = HanabiCard (Color: int) (Rank: int)

definition InvalidCard :: HanabiCard where
  "InvalidCard = HanabiCard (- 1) (- 1)"

definition IsValid :: "HanabiCard \<Rightarrow> bool" where
  "IsValid c = (Color c \<ge> 0 \<and> Rank c \<ge> 0)"

subsection \<open>The card supply\<close>

record HanabiDeck =
  card_count :: "int list"
  total_count :: int
  num_ranks :: int

text \<open>
  Modelled from the spec: the inline members of \<open>HanabiDeck\<close> declared in
  \<open>hanabi_state.h\<close>, which is not part of the sources at hand: the index of an
  identity in \<open>card_count_\<close> (colour-major), its inverse, and the accessors
  \<open>Size\<close> (Remaining), \<open>Empty\<close> (IsEmpty) and \<open>CardCount\<close> (RemainingOf).
  \<open>/\<close> and \<open>%\<close> of C++ truncate towards zero.
\<close>

definition CardToIndex :: "HanabiDeck \<Rightarrow> int \<Rightarrow> int \<Rightarrow> int" where
  "CardToIndex d color rank = color * num_ranks d + rank"

definition IndexToColor :: "HanabiDeck \<Rightarrow> int \<Rightarrow> int" where
  "IndexToColor d index = index sdiv num_ranks d"

definition IndexToRank :: "HanabiDeck \<Rightarrow> int \<Rightarrow> int" where
  "IndexToRank d index = index smod num_ranks d"

definition Size :: "HanabiDeck \<Rightarrow> int" where
  "Size d = total_count d"

definition Empty :: "HanabiDeck \<Rightarrow> bool" where
  "Empty d = (total_count d = 0)"

definition CardCount :: "HanabiDeck \<Rightarrow> int \<Rightarrow> int \<Rightarrow> error + int" where
  "CardCount d color rank = elem (card_count d) (CardToIndex d color rank)"

text \<open>The card \<open>HanabiCard(IndexToColor(index), IndexToRank(index))\<close> that both draws return.\<close>

definition IndexToCard :: "HanabiDeck \<Rightarrow> int \<Rightarrow> error + HanabiCard" where
  "IndexToCard d index =
     (if num_ranks d = 0 then Inl DivideByZero
      else Inr (HanabiCard (IndexToColor d index) (IndexToRank d index)))"

text \<open>
  \<open>DealCard(std::mt19937* rng)\<close>. The argument \<open>index\<close> is the value \<open>dist(*rng)\<close> that
  the \<open>std::discrete_distribution\<close> over \<open>card_count_\<close> produces from the random
  stream.
\<close>

definition DealCard_rng :: "HanabiDeck \<Rightarrow> int \<Rightarrow> error + (HanabiCard \<times> HanabiDeck)" where
  "DealCard_rng d index =
     (if Empty d then Inr (InvalidCard, d)
      else ebind (elem (card_count d) index) (\<lambda>n.
        if \<not> n > 0 then Inl AssertFailed
        else ebind (IndexToCard d index) (\<lambda>c.
          Inr (c, d\<lparr>card_count := (card_count d)[nat index := n - 1],
                        total_count := total_count d - 1\<rparr>))))"

text \<open>\<open>DealCard(int color, int rank)\<close>.\<close>

definition DealCard :: "HanabiDeck \<Rightarrow> int \<Rightarrow> int \<Rightarrow> error + (HanabiCard \<times> HanabiDeck)" where
  "DealCard d color rank =
     (let index = CardToIndex d color rank in
      ebind (elem (card_count d) index) (\<lambda>n.
        if n \<le> 0 then Inr (InvalidCard, d)
        else if \<not> n > 0 then Inl AssertFailed
        else ebind (IndexToCard d index) (\<lambda>c.
          Inr (c, d\<lparr>card_count := (card_count d)[nat index := n - 1],
                        total_count := total_count d - 1\<rparr>))))"

text \<open>\<open>AddCard(int color, int rank)\<close>.\<close>

definition AddCard :: "HanabiDeck \<Rightarrow> int \<Rightarrow> int \<Rightarrow> error + HanabiDeck" where
  "AddCard d color rank =
     (let index = CardToIndex d color rank in
      ebind (elem (card_count d) index) (\<lambda>n.
        Inr (d\<lparr>card_count := (card_count d)[nat index := n + 1],
                 total_count := total_count d + 1\<rparr>)))"

subsection \<open>Moves\<close>

text \<open>
  Modelled from the spec: the value type \<open>HanabiMove\<close> (\<open>hanabi_move.h\<close> is not part of
  the sources at hand): a type tag and the type-specific fields that the accessors
  \<open>MoveType()\<close>, \<open>CardIndex()\<close>, \<open>TargetOffset()\<close>, \<open>Color()\<close> and \<open>Rank()\<close> read. The
  tag \<open>kInvalid\<close> stands for every move type that is none of the five variants.
\<close>

datatype HanabiMoveType = kInvalid | kPlay | kDiscard | kRevealColor | kRevealRank | kDeal

record HanabiMove =
  MoveType :: HanabiMoveType
  CardIndex :: int
  TargetOffset :: int
  MoveColor :: int
  MoveRank :: int

subsection \<open>Hands and card knowledge\<close>

text \<open>
  Modelled from the spec: \<open>HanabiHand\<close> and \<open>HanabiHand::CardKnowledge\<close>
  (\<open>hanabi_hand.h\<close>, \<open>hanabi_hand.cc\<close> are not part of the sources at hand). A hand is
  the ordered sequence of its cards, each paired with a knowledge record of what
  hints have revealed about it. Fresh knowledge has no colour and no rank hinted
  (\<open>-1\<close>) and holds every colour and rank plausible. A hint that matches a card
  fixes the hinted value, a hint that does not match rules the value out.
\<close>

record CardKnowledge =
  color_hint :: int
  rank_hint :: int
  color_plausible :: "bool list"
  rank_plausible :: "bool list"

definition NewCardKnowledge :: "int \<Rightarrow> int \<Rightarrow> CardKnowledge" where
  "NewCardKnowledge ncolors nranks =
     \<lparr>color_hint = - 1, rank_hint = - 1,
      color_plausible = replicate (nat ncolors) True,
      rank_plausible = replicate (nat nranks) True\<rparr>"

definition ColorHinted :: "CardKnowledge \<Rightarrow> bool" where
  "ColorHinted k = (color_hint k \<ge> 0)"

definition RankHinted :: "CardKnowledge \<Rightarrow> bool" where
  "RankHinted k = (rank_hint k \<ge> 0)"

definition ApplyIsColorHint :: "CardKnowledge \<Rightarrow> int \<Rightarrow> CardKnowledge" where
  "ApplyIsColorHint k color =
     k\<lparr>color_hint := color,
       color_plausible := map (\<lambda>i. int i = color) [0..<length (color_plausible k)]\<rparr>"

definition ApplyIsNotColorHint :: "CardKnowledge \<Rightarrow> int \<Rightarrow> CardKnowledge" where
  "ApplyIsNotColorHint k color =
     k\<lparr>color_plausible :=
         map (\<lambda>i. (color_plausible k ! i) \<and> int i \<noteq> color) [0..<length (color_plausible k)]\<rparr>"

definition ApplyIsRankHint :: "CardKnowledge \<Rightarrow> int \<Rightarrow> CardKnowledge" where
  "ApplyIsRankHint k rank =
     k\<lparr>rank_hint := rank,
       rank_plausible := map (\<lambda>i. int i = rank) [0..<length (rank_plausible k)]\<rparr>"

definition ApplyIsNotRankHint :: "CardKnowledge \<Rightarrow> int \<Rightarrow> CardKnowledge" where
  "ApplyIsNotRankHint k rank =
     k\<lparr>rank_plausible :=
         map (\<lambda>i. (rank_plausible k ! i) \<and> int i \<noteq> rank) [0..<length (rank_plausible k)]\<rparr>"

record HanabiHand =
  Cards :: "HanabiCard list"
  Knowledge :: "CardKnowledge list"

definition EmptyHand :: HanabiHand where
  "EmptyHand = \<lparr>Cards = [], Knowledge = []\<rparr>"

text \<open>\<open>hand.AddCard(card, knowledge)\<close>: the card joins the hand as its last card.\<close>

definition Hand_AddCard :: "HanabiHand \<Rightarrow> HanabiCard \<Rightarrow> CardKnowledge \<Rightarrow> HanabiHand" where
  "Hand_AddCard h c k = h\<lparr>Cards := Cards h @ [c], Knowledge := Knowledge h @ [k]\<rparr>"

text \<open>
  \<open>hand.RemoveFromHand(card_index, discard_pile)\<close>: the indexed card leaves the hand;
  it is appended to the pile unless the pointer is null (\<open>None\<close>).
\<close>

definition RemoveFromHand ::
  "HanabiHand \<Rightarrow> int \<Rightarrow> HanabiCard list option \<Rightarrow> error + (HanabiHand \<times> HanabiCard list option)"
where
  "RemoveFromHand h card_index discard_pile =
     ebind (elem (Cards h) card_index) (\<lambda>c.
       Inr (h\<lparr>Cards := take (nat card_index) (Cards h) @ drop (Suc (nat card_index)) (Cards h),
              Knowledge := take (nat card_index) (Knowledge h) @
                           drop (Suc (nat card_index)) (Knowledge h)\<rparr>,
            map_option (\<lambda>pile. pile @ [c]) discard_pile))"

text \<open>\<open>hand.SetCard(index, card, knowledge)\<close>: the slot is replaced.\<close>

definition SetCard :: "HanabiHand \<Rightarrow> int \<Rightarrow> HanabiCard \<Rightarrow> CardKnowledge \<Rightarrow> error + HanabiHand" where
  "SetCard h index c k =
     (if 0 \<le> index \<and> index < int (length (Cards h))
      then Inr (h\<lparr>Cards := (Cards h)[nat index := c],
                  Knowledge := (Knowledge h)[nat index := k]\<rparr>)
      else Inl OutOfRange)"

text \<open>
  \<open>hand.RevealColor(color)\<close> and \<open>hand.RevealRank(rank)\<close>: every card's knowledge takes
  the hint; the result is the bitmask of the positions that match and were not
  hinted before. The loops run over the cards from position \<open>i\<close> on.
\<close>

fun reveal_color_from ::
  "int \<Rightarrow> nat \<Rightarrow> HanabiCard list \<Rightarrow> CardKnowledge list \<Rightarrow> 8 word \<Rightarrow> 8 word \<times> CardKnowledge list"
where
  "reveal_color_from color i (c # cs) (k # ks) msk =
     (let msk' = (if Color c = color \<and> \<not> ColorHinted k then msk OR push_bit i 1 else msk);
          k' = (if Color c = color then ApplyIsColorHint k color else ApplyIsNotColorHint k color);
          (m, ks') = reveal_color_from color (Suc i) cs ks msk'
      in (m, k' # ks'))"
| "reveal_color_from color i cs ks msk = (msk, ks)"

fun reveal_rank_from ::
  "int \<Rightarrow> nat \<Rightarrow> HanabiCard list \<Rightarrow> CardKnowledge list \<Rightarrow> 8 word \<Rightarrow> 8 word \<times> CardKnowledge list"
where
  "reveal_rank_from rank i (c # cs) (k # ks) msk =
     (let msk' = (if Rank c = rank \<and> \<not> RankHinted k then msk OR push_bit i 1 else msk);
          k' = (if Rank c = rank then ApplyIsRankHint k rank else ApplyIsNotRankHint k rank);
          (m, ks') = reveal_rank_from rank (Suc i) cs ks msk'
      in (m, k' # ks'))"
| "reveal_rank_from rank i cs ks msk = (msk, ks)"

definition RevealColor :: "HanabiHand \<Rightarrow> int \<Rightarrow> 8 word \<times> HanabiHand" where
  "RevealColor h color =
     (let (m, ks) = reveal_color_from color 0 (Cards h) (Knowledge h) 0
      in (m, h\<lparr>Knowledge := ks\<rparr>))"

definition RevealRank :: "HanabiHand \<Rightarrow> int \<Rightarrow> 8 word \<times> HanabiHand" where
  "RevealRank h rank =
     (let (m, ks) = reveal_rank_from rank 0 (Cards h) (Knowledge h) 0
      in (m, h\<lparr>Knowledge := ks\<rparr>))"

subsection \<open>The bitmask helpers of the source\<close>

text \<open>
  The loop of \<open>HandColorBitmask\<close> from position \<open>i\<close> on: \<open>mask |= 1 << i\<close> for every
  card of the colour. The mask is a \<open>uint8_t\<close>.
\<close>

fun color_bits_from :: "int \<Rightarrow> nat \<Rightarrow> HanabiCard list \<Rightarrow> 8 word \<Rightarrow> 8 word" where
  "color_bits_from color i [] msk = msk"
| "color_bits_from color i (c # cs) msk =
     color_bits_from color (Suc i) cs (if Color c = color then msk OR push_bit i 1 else msk)"

definition HandColorBitmask :: "HanabiHand \<Rightarrow> int \<Rightarrow> error + 8 word" where
  "HandColorBitmask hand color =
     (if \<not> length (Cards hand) \<le> 8 then Inl AssertFailed
      else Inr (color_bits_from color 0 (Cards hand) 0))"

fun rank_bits_from :: "int \<Rightarrow> nat \<Rightarrow> HanabiCard list \<Rightarrow> 8 word \<Rightarrow> 8 word" where
  "rank_bits_from rank i [] msk = msk"
| "rank_bits_from rank i (c # cs) msk =
     rank_bits_from rank (Suc i) cs (if Rank c = rank then msk OR push_bit i 1 else msk)"

definition HandRankBitmask :: "HanabiHand \<Rightarrow> int \<Rightarrow> error + 8 word" where
  "HandRankBitmask hand rank =
     (if \<not> length (Cards hand) \<le> 8 then Inl AssertFailed
      else Inr (rank_bits_from rank 0 (Cards hand) 0))"

subsection \<open>The game configuration\<close>

text \<open>
  Modelled from the spec: \<open>HanabiGame\<close> (\<open>hanabi_game.h\<close> is not part of the sources at
  hand) is read-only configuration, taken here as a parameter: the player, colour
  and rank counts, the full hand size, the token limits, the multiplicity of every
  identity, the observation mode, the chance-outcome catalogue with its decoding
  \<open>GetChanceOutcome(uid)\<close> for \<open>0 \<le> uid < MaxChanceOutcomes()\<close>, and the start player
  that \<open>GetSampledStartPlayer()\<close> samples.
\<close>

datatype AgentObservationType = kMinimal | kCardKnowledge | kSeer

record HanabiGame =
  NumPlayers :: int
  NumColors :: int
  NumRanks :: int
  HandSize :: int
  MaxInformationTokens :: int
  MaxLifeTokens :: int
  NumberCardInstances :: "int \<Rightarrow> int \<Rightarrow> int"
  ObservationType :: AgentObservationType
  MaxChanceOutcomes :: int
  GetChanceOutcome :: "int \<Rightarrow> HanabiMove"
  GetSampledStartPlayer :: int

subsection \<open>The game state\<close>

text \<open>
  Modelled from the spec: \<open>HanabiHistoryItem\<close> (\<open>hanabi_history_item.h\<close> is not part of
  the sources at hand), the record of an applied move and its derived effects. A
  new item holds the move; no player, no deal target, no colour and no rank are
  \<open>-1\<close>, the flags are false and the bitmasks empty.
\<close>

record HanabiHistoryItem =
  move :: HanabiMove
  player :: int
  scored :: bool
  information_token :: bool
  color :: int
  rank :: int
  reveal_bitmask :: "8 word"
  newly_revealed_bitmask :: "8 word"
  deal_to_player :: int

definition NewHistoryItem :: "HanabiMove \<Rightarrow> HanabiHistoryItem" where
  "NewHistoryItem m =
     \<lparr>move = m, player = - 1, scored = False, information_token = False,
      color = - 1, rank = - 1, reveal_bitmask = 0, newly_revealed_bitmask = 0,
      deal_to_player = - 1\<rparr>"

text \<open>
  The members of \<open>HanabiState\<close>. The game \<open>parent_game_\<close> points to is never written
  and is passed to every operation as the argument \<open>g\<close>.
\<close>

record HanabiState =
  deck :: HanabiDeck
  discard_pile :: "HanabiCard list"
  hands :: "HanabiHand list"
  move_history :: "HanabiHistoryItem list"
  cur_player :: int
  next_non_chance_player :: int
  information_tokens :: int
  life_tokens :: int
  fireworks :: "int list"
  turns_to_play :: int

text \<open>
  Modelled from the spec: the sentinel \<open>kChancePlayerId\<close> of the chance actor and the
  result type \<open>EndOfGameType\<close>, both declared in headers that are not part of the
  sources at hand.
\<close>

definition kChancePlayerId :: int where
  "kChancePlayerId = - 1"

datatype EndOfGameType = kNotFinished | kOutOfLifeTokens | kOutOfCards | kCompletedFireworks

subsection \<open>Construction\<close>

text \<open>
  \<open>HanabiDeck::HanabiDeck(game)\<close>: a vector of \<open>NumColors * NumRanks\<close> zeros, then the
  two nested loops that store and add up the multiplicities. Every index the loops
  write lies inside the vector.
\<close>

definition deck_set_count :: "HanabiGame \<Rightarrow> int \<Rightarrow> HanabiDeck \<Rightarrow> int \<Rightarrow> HanabiDeck" where
  "deck_set_count g c d r =
     (let count = NumberCardInstances g c r in
      d\<lparr>card_count := (card_count d)[nat (CardToIndex d c r) := count],
        total_count := total_count d + count\<rparr>)"

definition deck_fill_color :: "HanabiGame \<Rightarrow> HanabiDeck \<Rightarrow> int \<Rightarrow> HanabiDeck" where
  "deck_fill_color g d c = foldl (deck_set_count g c) d (map int [0..<nat (NumRanks g)])"

definition NewHanabiDeck :: "HanabiGame \<Rightarrow> HanabiDeck" where
  "NewHanabiDeck g =
     foldl (deck_fill_color g)
       \<lparr>card_count = replicate (nat (NumColors g * NumRanks g)) 0,
        total_count = 0, num_ranks = NumRanks g\<rparr>
       (map int [0..<nat (NumColors g)])"

text \<open>\<open>HanabiState::HanabiState(parent_game, start_player)\<close>.\<close>

definition NewHanabiState :: "HanabiGame \<Rightarrow> int \<Rightarrow> HanabiState" where
  "NewHanabiState g start_player =
     \<lparr>deck = NewHanabiDeck g,
      discard_pile = [],
      hands = replicate (nat (NumPlayers g)) EmptyHand,
      move_history = [],
      cur_player = kChancePlayerId,
      next_non_chance_player =
        (if start_player \<ge> 0 \<and> start_player < NumPlayers g then start_player
         else GetSampledStartPlayer g),
      information_tokens = MaxInformationTokens g,
      life_tokens = MaxLifeTokens g,
      fireworks = replicate (nat (NumColors g)) 0,
      turns_to_play = NumPlayers g\<rparr>"

subsection \<open>Turn order and tokens\<close>

text \<open>
  The loop of \<open>PlayerToDeal\<close> from player \<open>i\<close> on. The comparison of a \<open>size_t\<close> with the
  \<open>int\<close> hand size converts the hand size.
\<close>

fun player_to_deal_from :: "HanabiGame \<Rightarrow> int \<Rightarrow> HanabiHand list \<Rightarrow> int" where
  "player_to_deal_from g i [] = - 1"
| "player_to_deal_from g i (h # hs) =
     (if int (length (Cards h)) < to_size_t (HandSize g) then i
      else player_to_deal_from g (i + 1) hs)"

definition PlayerToDeal :: "HanabiGame \<Rightarrow> HanabiState \<Rightarrow> int" where
  "PlayerToDeal g s = player_to_deal_from g 0 (hands s)"

text \<open>\<open>AdvanceToNextPlayer\<close>; \<open>%\<close> by the \<open>size_t\<close> number of hands converts its left operand.\<close>

definition AdvanceToNextPlayer :: "HanabiGame \<Rightarrow> HanabiState \<Rightarrow> error + HanabiState" where
  "AdvanceToNextPlayer g s =
     (if \<not> Empty (deck s) \<and> PlayerToDeal g s \<ge> 0
      then Inr (s\<lparr>cur_player := kChancePlayerId\<rparr>)
      else if hands s = [] then Inl DivideByZero
      else Inr (s\<lparr>cur_player := next_non_chance_player s,
                  next_non_chance_player :=
                    to_size_t (next_non_chance_player s + 1) mod int (length (hands s))\<rparr>))"

definition IncrementInformationTokens :: "HanabiGame \<Rightarrow> HanabiState \<Rightarrow> bool \<times> HanabiState" where
  "IncrementInformationTokens g s =
     (if information_tokens s < MaxInformationTokens g
      then (True, s\<lparr>information_tokens := information_tokens s + 1\<rparr>)
      else (False, s))"

definition DecrementInformationTokens :: "HanabiState \<Rightarrow> error + HanabiState" where
  "DecrementInformationTokens s =
     (if \<not> information_tokens s > 0 then Inl AssertFailed
      else Inr (s\<lparr>information_tokens := information_tokens s - 1\<rparr>))"

definition DecrementLifeTokens :: "HanabiState \<Rightarrow> error + HanabiState" where
  "DecrementLifeTokens s =
     (if \<not> life_tokens s > 0 then Inl AssertFailed
      else Inr (s\<lparr>life_tokens := life_tokens s - 1\<rparr>))"

subsection \<open>Fireworks\<close>

text \<open>\<open>CardPlayableOnFireworks(int color, int rank)\<close>.\<close>

definition CardPlayableOnFireworks :: "HanabiGame \<Rightarrow> HanabiState \<Rightarrow> int \<Rightarrow> int \<Rightarrow> error + bool" where
  "CardPlayableOnFireworks g s c r =
     (if c < 0 \<or> c \<ge> NumColors g then Inr False
      else ebind (elem (fireworks s) c) (\<lambda>f. Inr (r = f)))"

text \<open>
  \<open>AddToFireworks(card)\<close>; the result pairs \<open>(scored, information token recovered)\<close> with
  the new state. The overload \<open>CardPlayableOnFireworks(card)\<close> of the header passes
  the card's colour and rank on.
\<close>

definition AddToFireworks ::
  "HanabiGame \<Rightarrow> HanabiState \<Rightarrow> HanabiCard \<Rightarrow> error + ((bool \<times> bool) \<times> HanabiState)"
where
  "AddToFireworks g s c =
     ebind (CardPlayableOnFireworks g s (Color c) (Rank c)) (\<lambda>playable.
       if playable then
         ebind (elem (fireworks s) (Color c)) (\<lambda>f.
           let s1 = s\<lparr>fireworks := (fireworks s)[nat (Color c) := f + 1]\<rparr> in
           if f + 1 = NumRanks g then
             (let (b, s2) = IncrementInformationTokens g s1 in Inr ((True, b), s2))
           else Inr ((True, False), s1))
       else
         ebind (DecrementLifeTokens s) (\<lambda>s1. Inr ((False, False), s1)))"

subsection \<open>Legality\<close>

definition HintingIsLegal :: "HanabiGame \<Rightarrow> HanabiState \<Rightarrow> HanabiMove \<Rightarrow> bool" where
  "HintingIsLegal g s m =
     (if information_tokens s \<le> 0 then False
      else if TargetOffset m < 1 \<or> TargetOffset m \<ge> NumPlayers g then False
      else True)"

text \<open>
  Modelled from the spec: \<open>HandByOffset(offset)\<close> of the header, the hand of the player
  \<open>offset\<close> seats after the current one, counted round the table. The first
  definition is the player's index.
\<close>

definition HandIndexByOffset :: "HanabiState \<Rightarrow> int \<Rightarrow> error + int" where
  "HandIndexByOffset s offset =
     (if hands s = [] then Inl DivideByZero
      else Inr (to_size_t (cur_player s + offset) mod int (length (hands s))))"

definition HandByOffset :: "HanabiState \<Rightarrow> int \<Rightarrow> error + HanabiHand" where
  "HandByOffset s offset = ebind (HandIndexByOffset s offset) (\<lambda>i. elem (hands s) i)"

text \<open>
  \<open>MoveIsLegal(move)\<close>. A card index is compared with the \<open>size_t\<close> size of the hand, which
  converts the index.
\<close>

definition MoveIsLegal :: "HanabiGame \<Rightarrow> HanabiState \<Rightarrow> HanabiMove \<Rightarrow> error + bool" where
  "MoveIsLegal g s m =
     (case MoveType m of
        kDeal \<Rightarrow>
          if cur_player s \<noteq> kChancePlayerId then Inr False
          else ebind (CardCount (deck s) (MoveColor m) (MoveRank m)) (\<lambda>n.
            if n = 0 then Inr False else Inr True)
      | kDiscard \<Rightarrow>
          if information_tokens s \<ge> MaxInformationTokens g then Inr False
          else ebind (elem (hands s) (cur_player s)) (\<lambda>h.
            if to_size_t (CardIndex m) \<ge> int (length (Cards h)) then Inr False else Inr True)
      | kPlay \<Rightarrow>
          ebind (elem (hands s) (cur_player s)) (\<lambda>h.
            if to_size_t (CardIndex m) \<ge> int (length (Cards h)) then Inr False else Inr True)
      | kRevealColor \<Rightarrow>
          if \<not> HintingIsLegal g s m then Inr False
          else ebind (HandByOffset s (TargetOffset m)) (\<lambda>h.
            if \<not> list_ex (\<lambda>c. Color c = MoveColor m) (Cards h) then Inr False else Inr True)
      | kRevealRank \<Rightarrow>
          if \<not> HintingIsLegal g s m then Inr False
          else ebind (HandByOffset s (TargetOffset m)) (\<lambda>h.
            if \<not> list_ex (\<lambda>c. Rank c = MoveRank m) (Cards h) then Inr False else Inr True)
      | kInvalid \<Rightarrow> Inr False)"

subsection \<open>Applying a move\<close>

text \<open>
  The five cases of the \<open>switch\<close> in \<open>ApplyMove\<close>, each from the state and the history
  item at the \<open>switch\<close> to the state and the item after the case.
\<close>

definition apply_kDeal ::
  "HanabiGame \<Rightarrow> HanabiState \<Rightarrow> HanabiHistoryItem \<Rightarrow> HanabiMove \<Rightarrow>
     error + (HanabiState \<times> HanabiHistoryItem)"
where
  "apply_kDeal g s h m =
     (let h1 = h\<lparr>deal_to_player := PlayerToDeal g s\<rparr>;
          k0 = NewCardKnowledge (NumColors g) (NumRanks g);
          k = (if ObservationType g = kSeer
               then ApplyIsRankHint (ApplyIsColorHint k0 (MoveColor m)) (MoveRank m)
               else k0)
      in ebind (DealCard (deck s) (MoveColor m) (MoveRank m)) (\<lambda>(c, d).
         ebind (elem (hands s) (deal_to_player h1)) (\<lambda>hand.
           Inr (s\<lparr>deck := d,
                  hands := (hands s)[nat (deal_to_player h1) := Hand_AddCard hand c k]\<rparr>,
                h1))))"

definition apply_kDiscard ::
  "HanabiGame \<Rightarrow> HanabiState \<Rightarrow> HanabiHistoryItem \<Rightarrow> HanabiMove \<Rightarrow>
     error + (HanabiState \<times> HanabiHistoryItem)"
where
  "apply_kDiscard g s h m =
     (let (b, s1) = IncrementInformationTokens g s;
          h1 = h\<lparr>information_token := b\<rparr>
      in ebind (elem (hands s1) (cur_player s1)) (\<lambda>hand.
         ebind (elem (Cards hand) (CardIndex m)) (\<lambda>c.
         ebind (RemoveFromHand hand (CardIndex m) (Some (discard_pile s1))) (\<lambda>(hand', pile).
           Inr (s1\<lparr>hands := (hands s1)[nat (cur_player s1) := hand'],
                   discard_pile := (case pile of Some p \<Rightarrow> p | None \<Rightarrow> discard_pile s1)\<rparr>,
                h1\<lparr>color := Color c, rank := Rank c\<rparr>)))))"

definition apply_kPlay ::
  "HanabiGame \<Rightarrow> HanabiState \<Rightarrow> HanabiHistoryItem \<Rightarrow> HanabiMove \<Rightarrow>
     error + (HanabiState \<times> HanabiHistoryItem)"
where
  "apply_kPlay g s h m =
     ebind (elem (hands s) (cur_player s)) (\<lambda>hand.
     ebind (elem (Cards hand) (CardIndex m)) (\<lambda>c.
     ebind (AddToFireworks g s c) (\<lambda>((sc, tok), s1).
     ebind (RemoveFromHand hand (CardIndex m) (if sc then None else Some (discard_pile s1)))
       (\<lambda>(hand', pile).
         Inr (s1\<lparr>hands := (hands s1)[nat (cur_player s1) := hand'],
                 discard_pile := (case pile of Some p \<Rightarrow> p | None \<Rightarrow> discard_pile s1)\<rparr>,
              h\<lparr>color := Color c, rank := Rank c, scored := sc, information_token := tok\<rparr>)))))"

definition apply_kRevealColor ::
  "HanabiGame \<Rightarrow> HanabiState \<Rightarrow> HanabiHistoryItem \<Rightarrow> HanabiMove \<Rightarrow>
     error + (HanabiState \<times> HanabiHistoryItem)"
where
  "apply_kRevealColor g s h m =
     ebind (DecrementInformationTokens s) (\<lambda>s1.
     ebind (HandIndexByOffset s1 (TargetOffset m)) (\<lambda>i.
     ebind (elem (hands s1) i) (\<lambda>hand.
     ebind (HandColorBitmask hand (MoveColor m)) (\<lambda>bits.
       let (newly, hand') = RevealColor hand (MoveColor m) in
       Inr (s1\<lparr>hands := (hands s1)[nat i := hand']\<rparr>,
            h\<lparr>reveal_bitmask := bits, newly_revealed_bitmask := newly\<rparr>)))))"

definition apply_kRevealRank ::
  "HanabiGame \<Rightarrow> HanabiState \<Rightarrow> HanabiHistoryItem \<Rightarrow> HanabiMove \<Rightarrow>
     error + (HanabiState \<times> HanabiHistoryItem)"
where
  "apply_kRevealRank g s h m =
     ebind (DecrementInformationTokens s) (\<lambda>s1.
     ebind (HandIndexByOffset s1 (TargetOffset m)) (\<lambda>i.
     ebind (elem (hands s1) i) (\<lambda>hand.
     ebind (HandRankBitmask hand (MoveRank m)) (\<lambda>bits.
       let (newly, hand') = RevealRank hand (MoveRank m) in
       Inr (s1\<lparr>hands := (hands s1)[nat i := hand']\<rparr>,
            h\<lparr>reveal_bitmask := bits, newly_revealed_bitmask := newly\<rparr>)))))"

text \<open>\<open>ApplyMove(move)\<close>.\<close>

definition ApplyMove :: "HanabiGame \<Rightarrow> HanabiState \<Rightarrow> HanabiMove \<Rightarrow> error + HanabiState" where
  "ApplyMove g s m =
     ebind (MoveIsLegal g s m) (\<lambda>legal.
       if \<not> legal then Inl RequireFailed
       else
         let s0 = (if Empty (deck s) then s\<lparr>turns_to_play := turns_to_play s - 1\<rparr> else s);
             h = (NewHistoryItem m)\<lparr>player := cur_player s0\<rparr>
         in ebind
              (case MoveType m of
                 kDeal \<Rightarrow> apply_kDeal g s0 h m
               | kDiscard \<Rightarrow> apply_kDiscard g s0 h m
               | kPlay \<Rightarrow> apply_kPlay g s0 h m
               | kRevealColor \<Rightarrow> apply_kRevealColor g s0 h m
               | kRevealRank \<Rightarrow> apply_kRevealRank g s0 h m
               | kInvalid \<Rightarrow> Inl Aborted)
              (\<lambda>(s1, h1). AdvanceToNextPlayer g (s1\<lparr>move_history := move_history s1 @ [h1]\<rparr>)))"

subsection \<open>Score, terminal status and state repair\<close>

definition Score :: "HanabiState \<Rightarrow> int" where
  "Score s = (if life_tokens s \<le> 0 then 0 else foldl (+) 0 (fireworks s))"

definition EndOfGameStatus :: "HanabiGame \<Rightarrow> HanabiState \<Rightarrow> EndOfGameType" where
  "EndOfGameStatus g s =
     (if life_tokens s < 1 then kOutOfLifeTokens
      else if Score s \<ge> NumColors g * NumRanks g then kCompletedFireworks
      else if turns_to_play s \<le> 0 then kOutOfCards
      else kNotFinished)"

text \<open>\<open>SetHandCard(player, card_index, card)\<close>.\<close>

definition SetHandCard ::
  "HanabiGame \<Rightarrow> HanabiState \<Rightarrow> int \<Rightarrow> int \<Rightarrow> HanabiCard \<Rightarrow> error + HanabiState"
where
  "SetHandCard g s p card_index c =
     (if \<not> (p \<ge> 0 \<and> p < int (length (hands s))) then Inl RequireFailed
      else ebind (elem (hands s) p) (\<lambda>hand.
        if \<not> (card_index \<ge> 0 \<and> card_index < int (length (Cards hand))) then Inl RequireFailed
        else if \<not> IsValid c then Inl RequireFailed
        else ebind (elem (Cards hand) card_index) (\<lambda>old_card.
          ebind (if IsValid old_card then AddCard (deck s) (Color old_card) (Rank old_card)
                 else Inr (deck s)) (\<lambda>d1.
          ebind (DealCard d1 (Color c) (Rank c)) (\<lambda>(dealt_card, d2).
          ebind (SetCard hand card_index c (NewCardKnowledge (NumColors g) (NumRanks g)))
            (\<lambda>hand'.
              Inr (s\<lparr>deck := d2, hands := (hands s)[nat p := hand']\<rparr>)))))))"


subsection \<open>Chance outcomes and their probabilities\<close>

text \<open>
  The type \<open>double\<close> of the probabilities: the binary64 format of IEEE 754 with
  rounding to nearest, ties to even. A finite value is the rational number it
  stands for (the two zeros are not told apart); \<open>pow2 e\<close> is \<open>2\<close> to the power \<open>e\<close>.
  \<open>to_double\<close> rounds a rational number: the significand of a positive number in the
  binade \<open>[2^e, 2^(e+1))\<close> is rounded to 52 binary places (below \<open>2^-1022\<close> the
  spacing of the subnormal numbers is kept), and a result of \<open>2^1024\<close> or more is
  infinite. \<open>binade\<close> finds the exponent from the bit lengths of numerator and
  denominator.
\<close>

datatype double = Finite rat | PlusInfinity | MinusInfinity | NaN

definition pow2 :: "int \<Rightarrow> rat" where
  "pow2 e = 2 powi e"

definition round_half_even :: "rat \<Rightarrow> int" where
  "round_half_even x =
     (let n = \<lfloor>x\<rfloor>; f = x - of_int n
      in if f < 1 / 2 then n else if 1 / 2 < f then n + 1 else if even n then n else n + 1)"

definition binade :: "rat \<Rightarrow> int" where
  "binade q =
     (let (a, b) = quotient_of q; e = bitlen a - bitlen b
      in if pow2 e \<le> q then e else e - 1)"

definition round_positive :: "rat \<Rightarrow> double" where
  "round_positive q =
     (let e = max (binade q) (- 1022);
          r = of_int (round_half_even (q * pow2 (52 - e))) * pow2 (e - 52)
      in if pow2 1024 \<le> r then PlusInfinity else Finite r)"

definition to_double :: "rat \<Rightarrow> double" where
  "to_double q =
     (if q = 0 then Finite 0
      else if 0 < q then round_positive q
      else (case round_positive (- q) of
              Finite r \<Rightarrow> Finite (- r) | PlusInfinity \<Rightarrow> MinusInfinity | d \<Rightarrow> d))"

text \<open>
  \<open>static_cast<double>(i)\<close> of an integer, the division and the addition of two
  doubles: the exact result, rounded.
\<close>

definition double_of_int :: "int \<Rightarrow> double" where
  "double_of_int i = to_double (of_int i)"

fun double_divide :: "double \<Rightarrow> double \<Rightarrow> double" where
  "double_divide (Finite x) (Finite y) =
     (if y = 0 then (if x = 0 then NaN else if 0 < x then PlusInfinity else MinusInfinity)
      else to_double (x / y))"
| "double_divide (Finite x) PlusInfinity = Finite 0"
| "double_divide (Finite x) MinusInfinity = Finite 0"
| "double_divide PlusInfinity (Finite y) = (if 0 \<le> y then PlusInfinity else MinusInfinity)"
| "double_divide MinusInfinity (Finite y) = (if 0 \<le> y then MinusInfinity else PlusInfinity)"
| "double_divide x y = NaN"

fun double_plus :: "double \<Rightarrow> double \<Rightarrow> double" where
  "double_plus (Finite x) (Finite y) = to_double (x + y)"
| "double_plus NaN y = NaN"
| "double_plus x NaN = NaN"
| "double_plus PlusInfinity MinusInfinity = NaN"
| "double_plus MinusInfinity PlusInfinity = NaN"
| "double_plus PlusInfinity y = PlusInfinity"
| "double_plus MinusInfinity y = MinusInfinity"
| "double_plus x PlusInfinity = PlusInfinity"
| "double_plus x MinusInfinity = MinusInfinity"

text \<open>
  \<open>ChanceOutcomeProb(move)\<close>: the count of the move's slot and the size of the supply,
  each converted to \<open>double\<close>, then divided.
\<close>

definition ChanceOutcomeProb :: "HanabiGame \<Rightarrow> HanabiState \<Rightarrow> HanabiMove \<Rightarrow> error + double" where
  "ChanceOutcomeProb g s m =
     ebind (CardCount (deck s) (MoveColor m) (MoveRank m)) (\<lambda>n.
       Inr (double_divide (double_of_int n) (double_of_int (Size (deck s)))))"

text \<open>
  \<open>ChanceOutcomes()\<close>: the loop over the uids \<open>0, ..., MaxChanceOutcomes() - 1\<close>, which
  appends every legal outcome and its probability to the two vectors of \<open>rv\<close>.
\<close>

fun chance_outcomes_from ::
  "HanabiGame \<Rightarrow> HanabiState \<Rightarrow> int list \<Rightarrow> HanabiMove list \<times> double list \<Rightarrow>
     error + (HanabiMove list \<times> double list)"
where
  "chance_outcomes_from g s [] rv = Inr rv"
| "chance_outcomes_from g s (uid # uids) rv =
     (let m = GetChanceOutcome g uid in
      ebind (MoveIsLegal g s m) (\<lambda>legal.
        if legal then
          ebind (ChanceOutcomeProb g s m) (\<lambda>p.
            chance_outcomes_from g s uids (fst rv @ [m], snd rv @ [p]))
        else chance_outcomes_from g s uids rv))"

definition ChanceOutcomes ::
  "HanabiGame \<Rightarrow> HanabiState \<Rightarrow> error + (HanabiMove list \<times> double list)" where
  "ChanceOutcomes g s =
     chance_outcomes_from g s (map int [0..<nat (MaxChanceOutcomes g)]) ([], [])"
section \<open>Properties\<close>

subsection \<open>Predicates of the statements\<close>

text \<open>
  An identity of a deck: a colour and a rank that are not negative, the rank inside
  the deck's rank range, with a slot in \<open>card_count_\<close>.
\<close>

definition deck_identity :: "HanabiDeck \<Rightarrow> int \<Rightarrow> int \<Rightarrow> bool" where
  "deck_identity d c r =
     (0 \<le> c \<and> 0 \<le> r \<and> r < num_ranks d \<and>
      CardToIndex d c r < int (length (card_count d)))"

definition card_identity :: "HanabiDeck \<Rightarrow> HanabiCard \<Rightarrow> bool" where
  "card_identity d c = deck_identity d (Color c) (Rank c)"

text \<open>The slot of an identity in \<open>card_count_\<close>; it is read for identities of the deck only.\<close>

definition count_of :: "HanabiDeck \<Rightarrow> int \<Rightarrow> int \<Rightarrow> int" where
  "count_of d c r = card_count d ! nat (CardToIndex d c r)"

text \<open>The values of a signed C++ integer of at most 64 bits.\<close>

definition signed_value :: "int \<Rightarrow> bool" where
  "signed_value i = (- (2 ^ 63) \<le> i \<and> i < 2 ^ 63)"

text \<open>
  Fireworks as the data model has them: one counter for each colour, none above the
  number of ranks.
\<close>

definition fireworks_in_range :: "HanabiGame \<Rightarrow> HanabiState \<Rightarrow> bool" where
  "fireworks_in_range g s =
     (0 \<le> NumColors g \<and> length (fireworks s) = nat (NumColors g) \<and>
      list_all (\<lambda>f. f \<le> NumRanks g) (fireworks s))"

text \<open>
  The legality table of the specification, written from its words. A valid index
  into a hand is a position of one of its cards. A Deal is legal iff the chance
  actor is the current actor and the named colour and rank are an identity of the
  supply whose remaining count is positive. A Discard is legal iff the information
  tokens are below the maximum and the index is a valid index into the hand of the
  current actor; a Play iff the index is a valid index into that hand; the chance
  actor has no hand, and no index into it is valid. A hint is legal iff an
  information token is left, the target offset lies in \<open>[1, NumPlayers)\<close> and the
  hand of the target holds a card of the colour or rank. No other move is legal.
\<close>

definition valid_index :: "HanabiHand \<Rightarrow> int \<Rightarrow> bool" where
  "valid_index h i = (0 \<le> i \<and> i < int (length (Cards h)))"

definition table_legal :: "HanabiGame \<Rightarrow> HanabiState \<Rightarrow> HanabiMove \<Rightarrow> bool" where
  "table_legal g s m =
     (case MoveType m of
        kDeal \<Rightarrow>
          cur_player s = kChancePlayerId \<and>
          deck_identity (deck s) (MoveColor m) (MoveRank m) \<and>
          0 < count_of (deck s) (MoveColor m) (MoveRank m)
      | kDiscard \<Rightarrow>
          information_tokens s < MaxInformationTokens g \<and>
          (case elem (hands s) (cur_player s) of Inr h \<Rightarrow> valid_index h (CardIndex m) | Inl e \<Rightarrow> False)
      | kPlay \<Rightarrow>
          (case elem (hands s) (cur_player s) of Inr h \<Rightarrow> valid_index h (CardIndex m) | Inl e \<Rightarrow> False)
      | kRevealColor \<Rightarrow>
          0 < information_tokens s \<and> 1 \<le> TargetOffset m \<and> TargetOffset m < NumPlayers g \<and>
          (case HandByOffset s (TargetOffset m) of
             Inr h \<Rightarrow> (\<exists>c \<in> set (Cards h). Color c = MoveColor m) | Inl e \<Rightarrow> False)
      | kRevealRank \<Rightarrow>
          0 < information_tokens s \<and> 1 \<le> TargetOffset m \<and> TargetOffset m < NumPlayers g \<and>
          (case HandByOffset s (TargetOffset m) of
             Inr h \<Rightarrow> (\<exists>c \<in> set (Cards h). Rank c = MoveRank m) | Inl e \<Rightarrow> False)
      | kInvalid \<Rightarrow> False)"

text \<open>
  The moves and states for which every vector element that \<open>MoveIsLegal\<close> reads
  exists, and the numbers it compares are those of the data model: a Deal judged
  for the chance actor names an identity of the supply, whose count is not
  negative; a Discard (with a token to gain) and a Play are judged for a player,
  with a card index and a hand size that are signed integers; a hint is judged in
  a state with one hand for each player.
\<close>

definition legality_defined :: "HanabiGame \<Rightarrow> HanabiState \<Rightarrow> HanabiMove \<Rightarrow> bool" where
  "legality_defined g s m =
     (case MoveType m of
        kDeal \<Rightarrow>
          cur_player s = kChancePlayerId \<longrightarrow>
            deck_identity (deck s) (MoveColor m) (MoveRank m) \<and>
            0 \<le> count_of (deck s) (MoveColor m) (MoveRank m)
      | kDiscard \<Rightarrow>
          information_tokens s < MaxInformationTokens g \<longrightarrow>
          (case elem (hands s) (cur_player s) of
             Inr h \<Rightarrow> signed_value (CardIndex m) \<and> signed_value (int (length (Cards h)))
           | Inl e \<Rightarrow> False)
      | kPlay \<Rightarrow>
          (case elem (hands s) (cur_player s) of
             Inr h \<Rightarrow> signed_value (CardIndex m) \<and> signed_value (int (length (Cards h)))
           | Inl e \<Rightarrow> False)
      | kRevealColor \<Rightarrow> int (length (hands s)) = NumPlayers g
      | kRevealRank \<Rightarrow> int (length (hands s)) = NumPlayers g
      | kInvalid \<Rightarrow> True)"

text \<open>The hand that \<open>RemoveFromHand\<close> leaves: the cards and the knowledge without position \<open>i\<close>.\<close>

definition hand_without :: "HanabiHand \<Rightarrow> int \<Rightarrow> HanabiHand" where
  "hand_without h i =
     h\<lparr>Cards := take (nat i) (Cards h) @ drop (Suc (nat i)) (Cards h),
       Knowledge := take (nat i) (Knowledge h) @ drop (Suc (nat i)) (Knowledge h)\<rparr>"

text \<open>
  The state at the \<open>switch\<close> of \<open>ApplyMove\<close>: the countdown of turns has gone down by one
  if the supply is empty.
\<close>

definition count_down :: "HanabiState \<Rightarrow> HanabiState" where
  "count_down s = (if Empty (deck s) then s\<lparr>turns_to_play := turns_to_play s - 1\<rparr> else s)"

text \<open>
  The supply as its operations keep it: \<open>total_count_\<close> is the sum of the counts, and no
  count is negative.
\<close>

definition deck_consistent :: "HanabiDeck \<Rightarrow> bool" where
  "deck_consistent d =
     (total_count d = sum_list (card_count d) \<and> list_all (\<lambda>n. 0 \<le> n) (card_count d))"

subsection \<open>Reachable states and the conservation of cards\<close>

text \<open>
  The states of a game: the freshly constructed state, and every state that
  \<open>ApplyMove\<close> returns from one of them. \<open>ApplyMove\<close> returns a state for legal moves only.
\<close>

inductive reachable :: "HanabiGame \<Rightarrow> HanabiState \<Rightarrow> bool" for g :: HanabiGame where
  fresh: "reachable g (NewHanabiState g start_player)"
| move: "reachable g s \<Longrightarrow> ApplyMove g s m = Inr s' \<Longrightarrow> reachable g s'"

text \<open>An identity of the game: a colour and a rank inside the configured ranges.\<close>

definition game_identity :: "HanabiGame \<Rightarrow> int \<Rightarrow> int \<Rightarrow> bool" where
  "game_identity g c r = (0 \<le> c \<and> c < NumColors g \<and> 0 \<le> r \<and> r < NumRanks g)"

text \<open>
  The multiplicity that the constructor of the supply stores in slot \<open>j\<close>, and a
  configuration with colour and rank counts and multiplicities that are not negative.
\<close>

definition slot_count :: "HanabiGame \<Rightarrow> nat \<Rightarrow> int" where
  "slot_count g j = NumberCardInstances g (int (j div nat (NumRanks g))) (int (j mod nat (NumRanks g)))"

definition multiplicities_ok :: "HanabiGame \<Rightarrow> bool" where
  "multiplicities_ok g =
     (0 \<le> NumColors g \<and> 0 \<le> NumRanks g \<and>
      list_all (\<lambda>j. 0 \<le> slot_count g j) [0..<nat (NumColors g) * nat (NumRanks g)])"

text \<open>
  The supply after the constructor's loops have stored the first \<open>n\<close> slots: the
  other slots are zero and the total is the sum of the stored multiplicities.
\<close>

definition filled :: "HanabiGame \<Rightarrow> nat \<Rightarrow> HanabiDeck \<Rightarrow> bool" where
  "filled g n d =
     (num_ranks d = NumRanks g \<and>
      card_count d = map (slot_count g) [0..<n] @
                     replicate (nat (NumColors g) * nat (NumRanks g) - n) 0 \<and>
      total_count d = sum_list (map (slot_count g) [0..<n]))"

text \<open>
  The occurrences of a card in all hands, and the card of an identity that the
  fireworks have consumed: one if the rank is below the colour's progress.
\<close>

definition held :: "HanabiHand list \<Rightarrow> HanabiCard \<Rightarrow> int" where
  "held hs x = sum_list (map (\<lambda>h. int (count_list (Cards h) x)) hs)"

definition played :: "HanabiState \<Rightarrow> int \<Rightarrow> int \<Rightarrow> int" where
  "played s c r = (if r < fireworks s ! nat c then 1 else 0)"

text \<open>
  The shape of the supply of a game, the conservation of every identity, and the
  invariant of the reachable states.
\<close>

definition supply_shape :: "HanabiGame \<Rightarrow> HanabiDeck \<Rightarrow> bool" where
  "supply_shape g d =
     (num_ranks d = NumRanks g \<and>
      length (card_count d) = nat (NumColors g) * nat (NumRanks g))"

definition conserved :: "HanabiGame \<Rightarrow> HanabiState \<Rightarrow> bool" where
  "conserved g s =
     (\<forall>c r. game_identity g c r \<longrightarrow>
        count_of (deck s) c r + held (hands s) (HanabiCard c r) +
        int (count_list (discard_pile s) (HanabiCard c r)) + played s c r =
        NumberCardInstances g c r)"

definition state_inv :: "HanabiGame \<Rightarrow> HanabiState \<Rightarrow> bool" where
  "state_inv g s =
     (supply_shape g (deck s) \<and> deck_consistent (deck s) \<and>
      int (length (fireworks s)) = NumColors g \<and> conserved g s)"


subsection \<open>The distribution of the chance outcomes\<close>

text \<open>
  The chance-outcome catalogue of the game, in the order of its uids; the remaining
  count of the identity that a Deal names, and its slot in the supply; the exact
  quotient of that count and the size of the supply; the sum of a vector of doubles,
  added from left to right.
\<close>

definition catalogue :: "HanabiGame \<Rightarrow> HanabiMove list" where
  "catalogue g = map (GetChanceOutcome g) (map int [0..<nat (MaxChanceOutcomes g)])"

definition remaining :: "HanabiState \<Rightarrow> HanabiMove \<Rightarrow> int" where
  "remaining s m = count_of (deck s) (MoveColor m) (MoveRank m)"

definition slot_of :: "HanabiDeck \<Rightarrow> HanabiMove \<Rightarrow> nat" where
  "slot_of d m = nat (CardToIndex d (MoveColor m) (MoveRank m))"

definition exact_quotient :: "HanabiState \<Rightarrow> HanabiMove \<Rightarrow> rat" where
  "exact_quotient s m = of_int (remaining s m) / of_int (Size (deck s))"

definition double_sum :: "double list \<Rightarrow> double" where
  "double_sum ps = foldl double_plus (Finite 0) ps"

text \<open>
  A catalogue for a supply: Deal moves only, each for an identity of the supply, and
  every slot of the supply named by exactly one of them.
\<close>

definition catalogue_ok :: "HanabiGame \<Rightarrow> HanabiDeck \<Rightarrow> bool" where
  "catalogue_ok g d =
     (list_all (\<lambda>m. MoveType m = kDeal \<and> deck_identity d (MoveColor m) (MoveRank m))
        (catalogue g) \<and>
      distinct (map (slot_of d) (catalogue g)) \<and>
      set (map (slot_of d) (catalogue g)) = {0..<length (card_count d)})"
subsection \<open>Concrete decks, games and states\<close>

definition deck_a :: HanabiDeck where
  "deck_a = \<lparr>card_count = [2, 1, 0, 1], total_count = 4, num_ranks = 2\<rparr>"

definition deck_e :: HanabiDeck where
  "deck_e = \<lparr>card_count = [0, 0, 0, 0], total_count = 0, num_ranks = 2\<rparr>"

text \<open>The moves, as the constructors of the move catalogue build them.\<close>

definition DealMove :: "int \<Rightarrow> int \<Rightarrow> HanabiMove" where
  "DealMove c r = \<lparr>MoveType = kDeal, CardIndex = - 1, TargetOffset = - 1, MoveColor = c, MoveRank = r\<rparr>"

definition PlayMove :: "int \<Rightarrow> HanabiMove" where
  "PlayMove i = \<lparr>MoveType = kPlay, CardIndex = i, TargetOffset = - 1, MoveColor = - 1, MoveRank = - 1\<rparr>"

definition DiscardMove :: "int \<Rightarrow> HanabiMove" where
  "DiscardMove i = \<lparr>MoveType = kDiscard, CardIndex = i, TargetOffset = - 1, MoveColor = - 1, MoveRank = - 1\<rparr>"

definition RevealColorMove :: "int \<Rightarrow> int \<Rightarrow> HanabiMove" where
  "RevealColorMove t c = \<lparr>MoveType = kRevealColor, CardIndex = - 1, TargetOffset = t, MoveColor = c, MoveRank = - 1\<rparr>"

definition RevealRankMove :: "int \<Rightarrow> int \<Rightarrow> HanabiMove" where
  "RevealRankMove t r = \<lparr>MoveType = kRevealRank, CardIndex = - 1, TargetOffset = t, MoveColor = - 1, MoveRank = r\<rparr>"

text \<open>
  A game of two players, two colours and two ranks with hands of two cards, two
  tokens of each kind, two cards of rank 0 and one of rank 1 in each colour.
\<close>

definition tiny_game :: HanabiGame where
  "tiny_game =
     \<lparr>NumPlayers = 2, NumColors = 2, NumRanks = 2, HandSize = 2,
      MaxInformationTokens = 2, MaxLifeTokens = 2,
      NumberCardInstances = (\<lambda>c r. if r = 0 then 2 else 1),
      ObservationType = kCardKnowledge,
      MaxChanceOutcomes = 4,
      GetChanceOutcome = (\<lambda>uid. DealMove (uid sdiv 2) (uid smod 2)),
      GetSampledStartPlayer = 0\<rparr>"

text \<open>A state of that game in mid-play, and the same state with the chance actor to act.\<close>

definition state_a :: HanabiState where
  "state_a =
     \<lparr>deck = \<lparr>card_count = [0, 0, 0, 1], total_count = 1, num_ranks = 2\<rparr>,
      discard_pile = [HanabiCard 0 0],
      hands = [\<lparr>Cards = [HanabiCard 1 0, HanabiCard 0 1],
                Knowledge = [NewCardKnowledge 2 2, NewCardKnowledge 2 2]\<rparr>,
               \<lparr>Cards = [HanabiCard 1 0],
                Knowledge = [NewCardKnowledge 2 2]\<rparr>],
      move_history = [],
      cur_player = 0,
      next_non_chance_player = 1,
      information_tokens = 1,
      life_tokens = 2,
      fireworks = [1, 0],
      turns_to_play = 2\<rparr>"

definition state_c :: HanabiState where
  "state_c = state_a\<lparr>cur_player := kChancePlayerId\<rparr>"

text \<open>The state of mid-play after the last card of the supply went to the discard pile.\<close>

definition state_e :: HanabiState where
  "state_e =
     state_a\<lparr>deck := \<lparr>card_count = [0, 0, 0, 0], total_count = 0, num_ranks = 2\<rparr>,
             discard_pile := [HanabiCard 0 0, HanabiCard 1 1]\<rparr>"

text \<open>
  A sequence of moves applied one after the other, and the first moves of a game of
  two players: four deals, then a misplay, a play that scores and a second misplay,
  each of the first two followed by the deal that refills the hand. The state they
  lead to has no life token left, and its next player holds a card that does not
  fit the fireworks.
\<close>

fun ApplyMoves :: "HanabiGame \<Rightarrow> HanabiState \<Rightarrow> HanabiMove list \<Rightarrow> error + HanabiState" where
  "ApplyMoves g s [] = Inr s"
| "ApplyMoves g s (m # ms) = ebind (ApplyMove g s m) (\<lambda>s'. ApplyMoves g s' ms)"

definition first_moves :: "HanabiMove list" where
  "first_moves =
     [DealMove 0 1, DealMove 1 1, DealMove 0 0, DealMove 0 0,
      PlayMove 0, DealMove 1 0, PlayMove 0, DealMove 1 0, PlayMove 0]"

definition state_z :: HanabiState where
  "state_z =
     (case ApplyMoves tiny_game (NewHanabiState tiny_game 0) first_moves of
        Inr s \<Rightarrow> s | Inl e \<Rightarrow> NewHanabiState tiny_game 0)"

section \<open>Proofs\<close>

subsection \<open>Errors, vectors and the index of an identity\<close>

lemma ebind_Inr_iff: "ebind r f = Inr y \<longleftrightarrow> (\<exists>x. r = Inr x \<and> f x = Inr y)"
  by (cases r) (simp_all add: ebind_def)

lemma ebind_Inr [simp]: "ebind (Inr x) f = f x"
  by (simp add: ebind_def)

lemma ebind_Inl [simp]: "ebind (Inl e) f = Inl e"
  by (simp add: ebind_def)

lemma elem_Inr_iff: "elem xs i = Inr x \<longleftrightarrow> 0 \<le> i \<and> i < int (length xs) \<and> x = xs ! nat i"
  by (auto simp: elem_def)

lemma elem_in_range: "0 \<le> i \<Longrightarrow> i < int (length xs) \<Longrightarrow> elem xs i = Inr (xs ! nat i)"
  by (simp add: elem_def)

lemma sdiv_nonneg: "0 \<le> i \<Longrightarrow> 0 < n \<Longrightarrow> (i::int) sdiv n = i div n"
  by (simp add: signed_divide_int_def sgn_if)

lemma smod_nonneg: "0 \<le> i \<Longrightarrow> 0 < n \<Longrightarrow> (i::int) smod n = i mod n"
  by (simp add: signed_modulo_int_def sgn_if)

lemma index_div: "0 \<le> r \<Longrightarrow> r < n \<Longrightarrow> (c * n + r) div n = (c::int)"
  by simp

lemma index_mod: "0 \<le> r \<Longrightarrow> r < n \<Longrightarrow> (c * n + r) mod n = (r::int)"
  by simp

lemma CardToIndex_nonneg: "deck_identity d c r \<Longrightarrow> 0 \<le> CardToIndex d c r"
  by (simp add: deck_identity_def CardToIndex_def)

lemma CardToIndex_inj:
  assumes "deck_identity d c r" "deck_identity d c' r'"
    and "CardToIndex d c r = CardToIndex d c' r'"
  shows "c = c' \<and> r = r'"
proof -
  let ?n = "num_ranks d"
  from assms(1,2) have r: "0 \<le> r" "r < ?n" "0 \<le> r'" "r' < ?n"
    by (simp_all add: deck_identity_def)
  from assms(3) have e: "c * ?n + r = c' * ?n + r'"
    by (simp add: CardToIndex_def)
  have "c = (c * ?n + r) div ?n" using r by (simp only: index_div)
  also have "\<dots> = c'" unfolding e using r by (simp only: index_div)
  finally have "c = c'" .
  moreover have "r = (c * ?n + r) mod ?n" using r by (simp only: index_mod)
  then have "r = r'" unfolding e using r by (simp only: index_mod)
  ultimately show ?thesis by simp
qed

lemma IndexToCard_identity:
  "deck_identity d c r \<Longrightarrow> IndexToCard d (CardToIndex d c r) = Inr (HanabiCard c r)"
  by (simp add: deck_identity_def IndexToCard_def IndexToColor_def IndexToRank_def
      CardToIndex_def sdiv_nonneg smod_nonneg)

lemma CardToIndex_of_index:
  "0 \<le> i \<Longrightarrow> 0 < num_ranks d \<Longrightarrow> CardToIndex d (IndexToColor d i) (IndexToRank d i) = i"
  by (simp add: IndexToColor_def IndexToRank_def CardToIndex_def sdiv_nonneg smod_nonneg)

lemma DealCard_zero:
  "deck_identity d c r \<Longrightarrow> CardCount d c r = Inr 0 \<Longrightarrow> DealCard d c r = Inr (InvalidCard, d)"
  by (simp add: DealCard_def CardCount_def Let_def)

lemma DealCard_positive:
  assumes id: "deck_identity d c r" and n: "CardCount d c r = Inr n" and pos: "0 < n"
  shows "\<exists>d'. DealCard d c r = Inr (HanabiCard c r, d') \<and> CardCount d' c r = Inr (n - 1) \<and>
           Size d' = Size d - 1 \<and>
           (\<forall>c' r'. deck_identity d c' r' \<and> (c', r') \<noteq> (c, r) \<longrightarrow>
              CardCount d' c' r' = CardCount d c' r')"
proof -
  let ?i = "CardToIndex d c r"
  let ?d = "d\<lparr>card_count := (card_count d)[nat ?i := n - 1], total_count := total_count d - 1\<rparr>"
  from n have rng: "0 \<le> ?i" "?i < int (length (card_count d))"
    by (simp_all add: CardCount_def elem_Inr_iff)
  have deal: "DealCard d c r = Inr (HanabiCard c r, ?d)"
    using n pos IndexToCard_identity [OF id] by (simp add: DealCard_def CardCount_def Let_def)
  have idx: "CardToIndex ?d = CardToIndex d"
    by (simp add: CardToIndex_def fun_eq_iff)
  have own: "CardCount ?d c r = Inr (n - 1)"
    using rng by (simp add: CardCount_def idx elem_def)
  have others: "CardCount ?d c' r' = CardCount d c' r'"
    if "deck_identity d c' r'" "(c', r') \<noteq> (c, r)" for c' r'
  proof -
    have "CardToIndex d c' r' \<noteq> ?i"
      using CardToIndex_inj [OF that(1) id] that(2) by auto
    moreover have "0 \<le> CardToIndex d c' r'" by (rule CardToIndex_nonneg [OF that(1)])
    ultimately show ?thesis
      using rng by (simp add: CardCount_def idx elem_def nat_eq_iff)
  qed
  show ?thesis
    using deal own others by (intro exI [of _ ?d]) (simp add: Size_def)
qed


lemma DealCard_rng_positive:
  assumes ne: "\<not> Empty d" and nr: "0 < num_ranks d" and n: "elem (card_count d) i = Inr n" and pos: "0 < n"
  shows "\<exists>d'. DealCard_rng d i = Inr (HanabiCard (IndexToColor d i) (IndexToRank d i), d') \<and>
           CardCount d' (IndexToColor d i) (IndexToRank d i) = Inr (n - 1) \<and>
           Size d' = Size d - 1 \<and>
           (\<forall>j. j \<noteq> i \<longrightarrow> elem (card_count d') j = elem (card_count d) j)"
proof -
  let ?d = "d\<lparr>card_count := (card_count d)[nat i := n - 1], total_count := total_count d - 1\<rparr>"
  from n have rng: "0 \<le> i" "i < int (length (card_count d))"
    by (simp_all add: elem_Inr_iff)
  have deal: "DealCard_rng d i = Inr (HanabiCard (IndexToColor d i) (IndexToRank d i), ?d)"
    using ne nr n pos by (simp add: DealCard_rng_def IndexToCard_def)
  have idx: "CardToIndex ?d = CardToIndex d"
    by (simp add: CardToIndex_def fun_eq_iff)
  have own: "CardCount ?d (IndexToColor d i) (IndexToRank d i) = Inr (n - 1)"
    using rng nr by (simp add: CardCount_def idx CardToIndex_of_index elem_def)
  have others: "elem (card_count ?d) j = elem (card_count d) j" if "j \<noteq> i" for j
    using that rng by (simp add: elem_def nat_eq_iff)
  show ?thesis
    using deal own others by (intro exI [of _ ?d]) (simp add: Size_def)
qed

lemma to_size_t_nonneg: "0 \<le> i \<Longrightarrow> signed_value i \<Longrightarrow> to_size_t i = i"
proof -
  assume a: "0 \<le> i" "signed_value i"
  have "(2::int) ^ 64 = 2 * 2 ^ 63" by simp
  moreover have "(0::int) < 2 ^ 63" by simp
  ultimately have "i < 2 ^ 64" using a(2) unfolding signed_value_def by linarith
  with a(1) show ?thesis unfolding to_size_t_def by (rule mod_pos_pos_trivial)
qed

lemma to_size_t_neg: "i < 0 \<Longrightarrow> signed_value i \<Longrightarrow> to_size_t i = i + 2 ^ 64"
proof -
  assume a: "i < 0" "signed_value i"
  have p: "(2::int) ^ 64 = 2 * 2 ^ 63" by simp
  have q: "(0::int) < 2 ^ 63" by simp
  have "0 \<le> i + 2 ^ 64" "i + 2 ^ 64 < 2 ^ 64"
    using a p q unfolding signed_value_def by linarith+
  then have "(i + 2 ^ 64) mod 2 ^ 64 = i + 2 ^ 64" by (rule mod_pos_pos_trivial)
  then show ?thesis unfolding to_size_t_def by (simp only: mod_add_self2)
qed

lemma index_check:
  assumes "signed_value i" and "signed_value (int n)"
  shows "to_size_t i \<ge> int n \<longleftrightarrow> \<not> (0 \<le> i \<and> i < int n)"
proof (cases "0 \<le> i")
  case True
  with assms(1) have "to_size_t i = i" by (simp only: to_size_t_nonneg)
  with True show ?thesis by auto
next
  case False
  then have e: "to_size_t i = i + 2 ^ 64"
    using assms(1) by (simp only: to_size_t_neg)
  have p: "(2::int) ^ 64 = 2 * 2 ^ 63" by simp
  have "int n \<le> i + 2 ^ 64"
    using assms p unfolding signed_value_def by linarith
  with False e show ?thesis by simp
qed


lemma CardCount_identity:
  "deck_identity d c r \<Longrightarrow> CardCount d c r = Inr (card_count d ! nat (CardToIndex d c r))"
  by (simp add: CardCount_def elem_def CardToIndex_nonneg deck_identity_def)

lemma CardToIndex_update [simp]:
  "CardToIndex (d\<lparr>card_count := cc, total_count := t\<rparr>) = CardToIndex d"
  by (simp add: CardToIndex_def fun_eq_iff)

lemma AddCard_identity:
  assumes "deck_identity d c r"
  shows "\<exists>d'. AddCard d c r = Inr d' \<and> num_ranks d' = num_ranks d \<and>
           length (card_count d') = length (card_count d) \<and>
           total_count d' = total_count d + 1 \<and>
           (\<forall>c' r'. deck_identity d c' r' \<longrightarrow>
              count_of d' c' r' = count_of d c' r' + (if (c', r') = (c, r) then 1 else 0))"
proof -
  let ?i = "CardToIndex d c r"
  let ?d = "d\<lparr>card_count := (card_count d)[nat ?i := count_of d c r + 1],
              total_count := total_count d + 1\<rparr>"
  have rng: "0 \<le> ?i" "?i < int (length (card_count d))"
    using assms by (simp_all add: CardToIndex_nonneg) (simp add: deck_identity_def)
  have add: "AddCard d c r = Inr ?d"
    using rng by (simp add: AddCard_def Let_def elem_def count_of_def)
  have cnt: "count_of ?d c' r' = count_of d c' r' + (if (c', r') = (c, r) then 1 else 0)"
    if "deck_identity d c' r'" for c' r'
  proof (cases "(c', r') = (c, r)")
    case True
    with rng show ?thesis by (simp add: count_of_def)
  next
    case False
    then have "CardToIndex d c' r' \<noteq> ?i"
      using CardToIndex_inj [OF that assms] by auto
    moreover have "0 \<le> CardToIndex d c' r'" by (rule CardToIndex_nonneg [OF that])
    ultimately show ?thesis
      using rng False by (simp add: count_of_def nat_eq_iff)
  qed
  show ?thesis
    using add cnt by (intro exI [of _ ?d]) simp
qed


lemma DealCard_identity:
  assumes "deck_identity d c r"
  shows "\<exists>d'. DealCard d c r = Inr (if 0 < count_of d c r then HanabiCard c r else InvalidCard, d') \<and>
           num_ranks d' = num_ranks d \<and>
           length (card_count d') = length (card_count d) \<and>
           total_count d' = total_count d - (if 0 < count_of d c r then 1 else 0) \<and>
           (\<forall>c' r'. deck_identity d c' r' \<longrightarrow>
              count_of d' c' r' =
                count_of d c' r' - (if (c', r') = (c, r) \<and> 0 < count_of d c r then 1 else 0))"
proof (cases "0 < count_of d c r")
  case False
  then have "DealCard d c r = Inr (InvalidCard, d)"
    using assms by (simp add: DealCard_def Let_def elem_def count_of_def CardToIndex_nonneg
        deck_identity_def)
  with False show ?thesis by simp
next
  case True
  let ?i = "CardToIndex d c r"
  let ?d = "d\<lparr>card_count := (card_count d)[nat ?i := count_of d c r - 1],
              total_count := total_count d - 1\<rparr>"
  have rng: "0 \<le> ?i" "?i < int (length (card_count d))"
    using assms by (simp_all add: CardToIndex_nonneg) (simp add: deck_identity_def)
  have deal: "DealCard d c r = Inr (HanabiCard c r, ?d)"
    using rng True IndexToCard_identity [OF assms]
    by (simp add: DealCard_def Let_def elem_def count_of_def)
  have cnt: "count_of ?d c' r' = count_of d c' r' - (if (c', r') = (c, r) then 1 else 0)"
    if "deck_identity d c' r'" for c' r'
  proof (cases "(c', r') = (c, r)")
    case True
    with rng show ?thesis by (simp add: count_of_def)
  next
    case False
    then have "CardToIndex d c' r' \<noteq> ?i"
      using CardToIndex_inj [OF that assms] by auto
    moreover have "0 \<le> CardToIndex d c' r'" by (rule CardToIndex_nonneg [OF that])
    ultimately show ?thesis
      using rng False by (simp add: count_of_def nat_eq_iff)
  qed
  show ?thesis
    using deal cnt True by (intro exI [of _ ?d]) simp
qed

lemma deck_identity_cong:
  "num_ranks d' = num_ranks d \<Longrightarrow> length (card_count d') = length (card_count d) \<Longrightarrow>
   deck_identity d' = deck_identity d"
  by (simp add: deck_identity_def CardToIndex_def fun_eq_iff)

lemma foldl_plus: "foldl (+) a xs = a + sum_list (xs :: int list)"
  by (induction xs arbitrary: a) simp_all

lemma sum_list_bounded: "list_all (\<lambda>f. f \<le> n) xs \<Longrightarrow> sum_list xs \<le> int (length xs) * (n :: int)"
  by (induction xs) (simp_all add: algebra_simps)

lemmas state_a_simps = state_a_def tiny_game_def PlayMove_def DiscardMove_def DealMove_def
  RevealColorMove_def RevealRankMove_def

subsection \<open>The steps of a move\<close>

lemma AdvanceToNextPlayer_effect:
  assumes "AdvanceToNextPlayer g s = Inr s'"
  shows "if \<not> Empty (deck s) \<and> PlayerToDeal g s \<ge> 0
         then s' = s\<lparr>cur_player := kChancePlayerId\<rparr>
         else hands s \<noteq> [] \<and>
              s' = s\<lparr>cur_player := next_non_chance_player s,
                     next_non_chance_player :=
                       to_size_t (next_non_chance_player s + 1) mod int (length (hands s))\<rparr>"
  using assms by (auto simp: AdvanceToNextPlayer_def split: if_splits)

lemma AdvanceToNextPlayer_frame:
  assumes "AdvanceToNextPlayer g s = Inr s'"
  shows "s' = s\<lparr>cur_player := cur_player s', next_non_chance_player := next_non_chance_player s'\<rparr>"
  using assms by (auto simp: AdvanceToNextPlayer_def split: if_splits)

lemma IncrementInformationTokens_effect:
  "IncrementInformationTokens g s =
     (information_tokens s < MaxInformationTokens g,
      s\<lparr>information_tokens :=
          (if information_tokens s < MaxInformationTokens g then information_tokens s + 1
           else information_tokens s)\<rparr>)"
  by (simp add: IncrementInformationTokens_def)

lemma RemoveFromHand_effect:
  assumes "elem (Cards h) i = Inr c"
  shows "RemoveFromHand h i pile =
     Inr (h\<lparr>Cards := take (nat i) (Cards h) @ drop (Suc (nat i)) (Cards h),
            Knowledge := take (nat i) (Knowledge h) @ drop (Suc (nat i)) (Knowledge h)\<rparr>,
          map_option (\<lambda>p. p @ [c]) pile)"
  using assms by (simp add: RemoveFromHand_def)

lemma apply_kDeal_effect:
  assumes "apply_kDeal g s h m = Inr (s1, h1)"
  obtains c d hand k where
    "DealCard (deck s) (MoveColor m) (MoveRank m) = Inr (c, d)"
    "elem (hands s) (PlayerToDeal g s) = Inr hand"
    "s1 = s\<lparr>deck := d, hands := (hands s)[nat (PlayerToDeal g s) := Hand_AddCard hand c k]\<rparr>"
  using assms
  by (auto simp: apply_kDeal_def Let_def ebind_Inr_iff)

lemma apply_kDiscard_effect:
  assumes "apply_kDiscard g s h m = Inr (s1, h1)"
  obtains c hand where
    "elem (hands s) (cur_player s) = Inr hand"
    "elem (Cards hand) (CardIndex m) = Inr c"
    "s1 = s\<lparr>information_tokens :=
               (if information_tokens s < MaxInformationTokens g then information_tokens s + 1
                else information_tokens s),
            hands := (hands s)[nat (cur_player s) := hand_without hand (CardIndex m)],
            discard_pile := discard_pile s @ [c]\<rparr>"
  using assms
  by (auto simp: apply_kDiscard_def IncrementInformationTokens_effect ebind_Inr_iff
      RemoveFromHand_def hand_without_def)

lemma AddToFireworks_effect:
  assumes "AddToFireworks g s c = Inr ((sc, tok), s1)"
  shows "if sc
         then 0 \<le> Color c \<and> Color c < NumColors g \<and> elem (fireworks s) (Color c) = Inr (Rank c) \<and>
              tok = (Rank c + 1 = NumRanks g \<and> information_tokens s < MaxInformationTokens g) \<and>
              s1 = s\<lparr>fireworks := (fireworks s)[nat (Color c) := Rank c + 1],
                     information_tokens := (if tok then information_tokens s + 1 else information_tokens s)\<rparr>
         else \<not> tok \<and> 0 < life_tokens s \<and>
              CardPlayableOnFireworks g s (Color c) (Rank c) = Inr False \<and>
              s1 = s\<lparr>life_tokens := life_tokens s - 1\<rparr>"
  using assms
  by (auto simp: AddToFireworks_def CardPlayableOnFireworks_def ebind_Inr_iff
      IncrementInformationTokens_effect DecrementLifeTokens_def elem_Inr_iff Let_def
      split: if_splits)


lemma apply_kPlay_effect:
  assumes "apply_kPlay g s h m = Inr (s1, h1)"
  obtains c hand sc tok s0 where
    "elem (hands s) (cur_player s) = Inr hand"
    "elem (Cards hand) (CardIndex m) = Inr c"
    "AddToFireworks g s c = Inr ((sc, tok), s0)"
    "s1 = s0\<lparr>hands := (hands s)[nat (cur_player s) := hand_without hand (CardIndex m)],
             discard_pile := (if sc then discard_pile s else discard_pile s @ [c])\<rparr>"
    "h1 = h\<lparr>color := Color c, rank := Rank c, scored := sc, information_token := tok\<rparr>"
proof -
  from assms obtain hand c sc tok s0 hand' pile where
    a: "elem (hands s) (cur_player s) = Inr hand" "elem (Cards hand) (CardIndex m) = Inr c"
      "AddToFireworks g s c = Inr ((sc, tok), s0)"
      "RemoveFromHand hand (CardIndex m) (if sc then None else Some (discard_pile s0)) = Inr (hand', pile)"
      "s1 = s0\<lparr>hands := (hands s0)[nat (cur_player s0) := hand'],
                discard_pile := (case pile of Some p \<Rightarrow> p | None \<Rightarrow> discard_pile s0)\<rparr>"
      "h1 = h\<lparr>color := Color c, rank := Rank c, scored := sc, information_token := tok\<rparr>"
    by (auto simp: apply_kPlay_def ebind_Inr_iff)
  have frame: "hands s0 = hands s" "cur_player s0 = cur_player s" "discard_pile s0 = discard_pile s"
    using AddToFireworks_effect [OF a(3)] by (auto split: if_splits)
  have "hand' = hand_without hand (CardIndex m)"
    "pile = (if sc then None else Some (discard_pile s @ [c]))"
    using a(4) unfolding RemoveFromHand_effect [OF a(2)] frame by (auto simp: hand_without_def)
  with a frame show ?thesis
    by (intro that [of hand c sc tok s0]) auto
qed

lemma reveal_color_from_fst_snd:
  "reveal_color_from col i cs ks msk =
     (fst (reveal_color_from col i cs ks msk), snd (reveal_color_from col i cs ks msk))"
  by simp

lemma RevealColor_Cards: "Cards (snd (RevealColor h col)) = Cards h"
  by (simp add: RevealColor_def split: prod.splits)

lemma RevealRank_Cards: "Cards (snd (RevealRank h r)) = Cards h"
  by (simp add: RevealRank_def split: prod.splits)

lemma apply_kRevealColor_effect:
  assumes "apply_kRevealColor g s h m = Inr (s1, h1)"
  obtains i hand where
    "0 < information_tokens s"
    "0 \<le> i" "i < int (length (hands s))"
    "s1 = s\<lparr>information_tokens := information_tokens s - 1,
            hands := (hands s)[nat i := snd (RevealColor (hands s ! nat i) (MoveColor m))]\<rparr>"
  using assms
  by (auto simp: apply_kRevealColor_def DecrementInformationTokens_def ebind_Inr_iff
      elem_Inr_iff case_prod_beta split: if_splits)

lemma apply_kRevealRank_effect:
  assumes "apply_kRevealRank g s h m = Inr (s1, h1)"
  obtains i hand where
    "0 < information_tokens s"
    "0 \<le> i" "i < int (length (hands s))"
    "s1 = s\<lparr>information_tokens := information_tokens s - 1,
            hands := (hands s)[nat i := snd (RevealRank (hands s ! nat i) (MoveRank m))]\<rparr>"
  using assms
  by (auto simp: apply_kRevealRank_def DecrementInformationTokens_def ebind_Inr_iff
      elem_Inr_iff case_prod_beta split: if_splits)

lemma ApplyMove_alt:
  "ApplyMove g s m =
     ebind (MoveIsLegal g s m) (\<lambda>legal.
       if \<not> legal then Inl RequireFailed
       else ebind
              (case MoveType m of
                 kDeal \<Rightarrow> apply_kDeal g (count_down s)
                   ((NewHistoryItem m)\<lparr>player := cur_player (count_down s)\<rparr>) m
               | kDiscard \<Rightarrow> apply_kDiscard g (count_down s)
                   ((NewHistoryItem m)\<lparr>player := cur_player (count_down s)\<rparr>) m
               | kPlay \<Rightarrow> apply_kPlay g (count_down s)
                   ((NewHistoryItem m)\<lparr>player := cur_player (count_down s)\<rparr>) m
               | kRevealColor \<Rightarrow> apply_kRevealColor g (count_down s)
                   ((NewHistoryItem m)\<lparr>player := cur_player (count_down s)\<rparr>) m
               | kRevealRank \<Rightarrow> apply_kRevealRank g (count_down s)
                   ((NewHistoryItem m)\<lparr>player := cur_player (count_down s)\<rparr>) m
               | kInvalid \<Rightarrow> Inl Aborted)
              (\<lambda>(s1, h1). AdvanceToNextPlayer g (s1\<lparr>move_history := move_history s1 @ [h1]\<rparr>)))"
  by (simp only: ApplyMove_def count_down_def Let_def)

lemma ApplyMove_steps:
  assumes "ApplyMove g s m = Inr s'"
  shows "\<exists>s1 h1 h0.
    (case MoveType m of
        kDeal \<Rightarrow> apply_kDeal g (count_down s) h0 m
      | kDiscard \<Rightarrow> apply_kDiscard g (count_down s) h0 m
      | kPlay \<Rightarrow> apply_kPlay g (count_down s) h0 m
      | kRevealColor \<Rightarrow> apply_kRevealColor g (count_down s) h0 m
      | kRevealRank \<Rightarrow> apply_kRevealRank g (count_down s) h0 m
      | kInvalid \<Rightarrow> Inl Aborted) = Inr (s1, h1) \<and>
    AdvanceToNextPlayer g (s1\<lparr>move_history := move_history s1 @ [h1]\<rparr>) = Inr s'"
proof -
  let ?sw = "(case MoveType m of
                 kDeal \<Rightarrow> apply_kDeal g (count_down s)
                   ((NewHistoryItem m)\<lparr>player := cur_player (count_down s)\<rparr>) m
               | kDiscard \<Rightarrow> apply_kDiscard g (count_down s)
                   ((NewHistoryItem m)\<lparr>player := cur_player (count_down s)\<rparr>) m
               | kPlay \<Rightarrow> apply_kPlay g (count_down s)
                   ((NewHistoryItem m)\<lparr>player := cur_player (count_down s)\<rparr>) m
               | kRevealColor \<Rightarrow> apply_kRevealColor g (count_down s)
                   ((NewHistoryItem m)\<lparr>player := cur_player (count_down s)\<rparr>) m
               | kRevealRank \<Rightarrow> apply_kRevealRank g (count_down s)
                   ((NewHistoryItem m)\<lparr>player := cur_player (count_down s)\<rparr>) m
               | kInvalid \<Rightarrow> Inl Aborted)"
  from assms have "\<exists>s1 h1. ?sw = Inr (s1, h1) \<and>
      AdvanceToNextPlayer g (s1\<lparr>move_history := move_history s1 @ [h1]\<rparr>) = Inr s'"
    unfolding ApplyMove_alt by (cases "MoveIsLegal g s m"; cases ?sw) (auto split: if_splits)
  then show ?thesis
    by blast
qed

lemma count_down_simps [simp]:
  "deck (count_down s) = deck s"
  "hands (count_down s) = hands s"
  "discard_pile (count_down s) = discard_pile s"
  "fireworks (count_down s) = fireworks s"
  "information_tokens (count_down s) = information_tokens s"
  "life_tokens (count_down s) = life_tokens s"
  "cur_player (count_down s) = cur_player s"
  "next_non_chance_player (count_down s) = next_non_chance_player s"
  "move_history (count_down s) = move_history s"
  "turns_to_play (count_down s) = (if Empty (deck s) then turns_to_play s - 1 else turns_to_play s)"
  by (simp_all add: count_down_def)

lemma PlayerToDeal_count_down [simp]: "PlayerToDeal g (count_down s) = PlayerToDeal g s"
  by (simp add: PlayerToDeal_def)

lemma AdvanceToNextPlayer_fields:
  assumes "AdvanceToNextPlayer g mid = Inr s'"
  shows "deck s' = deck mid" "hands s' = hands mid" "discard_pile s' = discard_pile mid"
    "fireworks s' = fireworks mid" "information_tokens s' = information_tokens mid"
    "life_tokens s' = life_tokens mid" "turns_to_play s' = turns_to_play mid"
    "move_history s' = move_history mid"
  by (subst AdvanceToNextPlayer_frame [OF assms], simp)+

lemma ApplyMove_legal: "ApplyMove g s m = Inr s' \<Longrightarrow> MoveIsLegal g s m = Inr True"
  by (auto simp: ApplyMove_def ebind_Inr_iff split: if_splits)

lemma ApplyMove_kDeal:
  assumes "ApplyMove g s m = Inr s'" "MoveType m = kDeal"
  obtains c d hand k h1 where
    "DealCard (deck s) (MoveColor m) (MoveRank m) = Inr (c, d)"
    "elem (hands s) (PlayerToDeal g s) = Inr hand"
    "AdvanceToNextPlayer g
       ((count_down s)\<lparr>deck := d,
          hands := (hands s)[nat (PlayerToDeal g s) := Hand_AddCard hand c k],
          move_history := move_history s @ [h1]\<rparr>) = Inr s'"
proof -
  from ApplyMove_steps [OF assms(1)] assms(2) obtain s1 h1 h0 where st:
    "apply_kDeal g (count_down s) h0 m = Inr (s1, h1)"
    "AdvanceToNextPlayer g (s1\<lparr>move_history := move_history s1 @ [h1]\<rparr>) = Inr s'"
    by auto
  from st(1) obtain c d hand k where e0:
    "DealCard (deck (count_down s)) (MoveColor m) (MoveRank m) = Inr (c, d)"
    "elem (hands (count_down s)) (PlayerToDeal g (count_down s)) = Inr hand"
    "s1 = (count_down s)\<lparr>deck := d,
       hands := (hands (count_down s))[nat (PlayerToDeal g (count_down s)) := Hand_AddCard hand c k]\<rparr>"
    by (rule apply_kDeal_effect)
  note e = e0 [unfolded count_down_simps PlayerToDeal_count_down]
  have adv: "AdvanceToNextPlayer g
       ((count_down s)\<lparr>deck := d,
          hands := (hands s)[nat (PlayerToDeal g s) := Hand_AddCard hand c k],
          move_history := move_history s @ [h1]\<rparr>) = Inr s'"
    using st(2) unfolding e(3) by (simp del: count_down_simps(10))
  from e(1-2) adv show ?thesis
    by (rule that)
qed

lemma ApplyMove_kDiscard:
  assumes "ApplyMove g s m = Inr s'" "MoveType m = kDiscard"
  obtains c hand h1 where
    "elem (hands s) (cur_player s) = Inr hand"
    "elem (Cards hand) (CardIndex m) = Inr c"
    "AdvanceToNextPlayer g
       ((count_down s)\<lparr>information_tokens :=
            (if information_tokens s < MaxInformationTokens g then information_tokens s + 1
             else information_tokens s),
          hands := (hands s)[nat (cur_player s) := hand_without hand (CardIndex m)],
          discard_pile := discard_pile s @ [c],
          move_history := move_history s @ [h1]\<rparr>) = Inr s'"
proof -
  from ApplyMove_steps [OF assms(1)] assms(2) obtain s1 h1 h0 where st:
    "apply_kDiscard g (count_down s) h0 m = Inr (s1, h1)"
    "AdvanceToNextPlayer g (s1\<lparr>move_history := move_history s1 @ [h1]\<rparr>) = Inr s'"
    by auto
  from st(1) obtain c hand where e0:
    "elem (hands (count_down s)) (cur_player (count_down s)) = Inr hand"
    "elem (Cards hand) (CardIndex m) = Inr c"
    "s1 = (count_down s)\<lparr>information_tokens :=
               (if information_tokens (count_down s) < MaxInformationTokens g
                then information_tokens (count_down s) + 1
                else information_tokens (count_down s)),
            hands := (hands (count_down s))[nat (cur_player (count_down s)) :=
                       hand_without hand (CardIndex m)],
            discard_pile := discard_pile (count_down s) @ [c]\<rparr>"
    by (rule apply_kDiscard_effect)
  note e = e0 [unfolded count_down_simps PlayerToDeal_count_down]
  have adv: "AdvanceToNextPlayer g
       ((count_down s)\<lparr>information_tokens :=
            (if information_tokens s < MaxInformationTokens g then information_tokens s + 1
             else information_tokens s),
          hands := (hands s)[nat (cur_player s) := hand_without hand (CardIndex m)],
          discard_pile := discard_pile s @ [c],
          move_history := move_history s @ [h1]\<rparr>) = Inr s'"
    using st(2) unfolding e(3) by (simp del: count_down_simps(10))
  from e(1-2) adv show ?thesis
    by (rule that)
qed

lemma ApplyMove_kPlay:
  assumes "ApplyMove g s m = Inr s'" "MoveType m = kPlay"
  obtains c hand sc tok s0 h1 where
    "elem (hands s) (cur_player s) = Inr hand"
    "elem (Cards hand) (CardIndex m) = Inr c"
    "AddToFireworks g (count_down s) c = Inr ((sc, tok), s0)"
    "scored h1 = sc" "information_token h1 = tok"
    "AdvanceToNextPlayer g
       (s0\<lparr>hands := (hands s)[nat (cur_player s) := hand_without hand (CardIndex m)],
           discard_pile := (if sc then discard_pile s else discard_pile s @ [c]),
           move_history := move_history s @ [h1]\<rparr>) = Inr s'"
proof -
  from ApplyMove_steps [OF assms(1)] assms(2) obtain s1 h1 h0 where st:
    "apply_kPlay g (count_down s) h0 m = Inr (s1, h1)"
    "AdvanceToNextPlayer g (s1\<lparr>move_history := move_history s1 @ [h1]\<rparr>) = Inr s'"
    by auto
  from st(1) obtain c hand sc tok s0 where p0:
    "elem (hands (count_down s)) (cur_player (count_down s)) = Inr hand"
    "elem (Cards hand) (CardIndex m) = Inr c"
    "AddToFireworks g (count_down s) c = Inr ((sc, tok), s0)"
    "s1 = s0\<lparr>hands := (hands (count_down s))[nat (cur_player (count_down s)) :=
                      hand_without hand (CardIndex m)],
           discard_pile := (if sc then discard_pile (count_down s)
                            else discard_pile (count_down s) @ [c])\<rparr>"
    "h1 = h0\<lparr>color := Color c, rank := Rank c, scored := sc, information_token := tok\<rparr>"
    by (rule apply_kPlay_effect)
  note p = p0 [unfolded count_down_simps]
  have mh: "move_history s0 = move_history s"
    using AddToFireworks_effect [OF p(3)] by (auto split: if_splits)
  have h: "scored h1 = sc" "information_token h1 = tok"
    unfolding p(5) by simp_all
  from st(2) have "AdvanceToNextPlayer g
       (s0\<lparr>hands := (hands s)[nat (cur_player s) := hand_without hand (CardIndex m)],
           discard_pile := (if sc then discard_pile s else discard_pile s @ [c]),
           move_history := move_history s @ [h1]\<rparr>) = Inr s'"
    unfolding p(4) by (simp add: mh)
  with p(1-3) h show ?thesis
    by (rule that)
qed

lemma ApplyMove_kRevealColor:
  assumes "ApplyMove g s m = Inr s'" "MoveType m = kRevealColor"
  obtains i h1 where
    "0 < information_tokens s" "0 \<le> i" "i < int (length (hands s))"
    "AdvanceToNextPlayer g
       ((count_down s)\<lparr>information_tokens := information_tokens s - 1,
          hands := (hands s)[nat i := snd (RevealColor (hands s ! nat i) (MoveColor m))],
          move_history := move_history s @ [h1]\<rparr>) = Inr s'"
proof -
  from ApplyMove_steps [OF assms(1)] assms(2) obtain s1 h1 h0 where st:
    "apply_kRevealColor g (count_down s) h0 m = Inr (s1, h1)"
    "AdvanceToNextPlayer g (s1\<lparr>move_history := move_history s1 @ [h1]\<rparr>) = Inr s'"
    by auto
  from st(1) obtain i where e0:
    "0 < information_tokens (count_down s)" "0 \<le> i" "i < int (length (hands (count_down s)))"
    "s1 = (count_down s)\<lparr>information_tokens := information_tokens (count_down s) - 1,
       hands := (hands (count_down s))[nat i :=
                  snd (RevealColor (hands (count_down s) ! nat i) (MoveColor m))]\<rparr>"
    by (rule apply_kRevealColor_effect)
  note e = e0 [unfolded count_down_simps PlayerToDeal_count_down]
  have adv: "AdvanceToNextPlayer g
       ((count_down s)\<lparr>information_tokens := information_tokens s - 1,
          hands := (hands s)[nat i := snd (RevealColor (hands s ! nat i) (MoveColor m))],
          move_history := move_history s @ [h1]\<rparr>) = Inr s'"
    using st(2) unfolding e(4) by (simp del: count_down_simps(10))
  from e(1-3) adv show ?thesis
    by (rule that)
qed

lemma ApplyMove_kRevealRank:
  assumes "ApplyMove g s m = Inr s'" "MoveType m = kRevealRank"
  obtains i h1 where
    "0 < information_tokens s" "0 \<le> i" "i < int (length (hands s))"
    "AdvanceToNextPlayer g
       ((count_down s)\<lparr>information_tokens := information_tokens s - 1,
          hands := (hands s)[nat i := snd (RevealRank (hands s ! nat i) (MoveRank m))],
          move_history := move_history s @ [h1]\<rparr>) = Inr s'"
proof -
  from ApplyMove_steps [OF assms(1)] assms(2) obtain s1 h1 h0 where st:
    "apply_kRevealRank g (count_down s) h0 m = Inr (s1, h1)"
    "AdvanceToNextPlayer g (s1\<lparr>move_history := move_history s1 @ [h1]\<rparr>) = Inr s'"
    by auto
  from st(1) obtain i where e0:
    "0 < information_tokens (count_down s)" "0 \<le> i" "i < int (length (hands (count_down s)))"
    "s1 = (count_down s)\<lparr>information_tokens := information_tokens (count_down s) - 1,
       hands := (hands (count_down s))[nat i :=
                  snd (RevealRank (hands (count_down s) ! nat i) (MoveRank m))]\<rparr>"
    by (rule apply_kRevealRank_effect)
  note e = e0 [unfolded count_down_simps PlayerToDeal_count_down]
  have adv: "AdvanceToNextPlayer g
       ((count_down s)\<lparr>information_tokens := information_tokens s - 1,
          hands := (hands s)[nat i := snd (RevealRank (hands s ! nat i) (MoveRank m))],
          move_history := move_history s @ [h1]\<rparr>) = Inr s'"
    using st(2) unfolding e(4) by (simp del: count_down_simps(10))
  from e(1-3) adv show ?thesis
    by (rule that)
qed

lemma ApplyMove_not_kInvalid: "ApplyMove g s m = Inr s' \<Longrightarrow> MoveType m \<noteq> kInvalid"
  by (auto simp: ApplyMove_def MoveIsLegal_def ebind_Inr_iff split: if_splits)

lemma AddToFireworks_frame:
  assumes "AddToFireworks g s c = Inr ((sc, tok), s0)"
  shows "deck s0 = deck s" "hands s0 = hands s" "discard_pile s0 = discard_pile s"
    "turns_to_play s0 = turns_to_play s" "next_non_chance_player s0 = next_non_chance_player s"
    "cur_player s0 = cur_player s" "move_history s0 = move_history s"
  using AddToFireworks_effect [OF assms] by (cases sc; simp)+

lemma ex_mid:
  "AdvanceToNextPlayer g mid = Inr s' \<Longrightarrow> turns_to_play mid = t \<Longrightarrow>
   next_non_chance_player mid = n \<Longrightarrow> length (hands mid) = l \<Longrightarrow>
   \<exists>mid. AdvanceToNextPlayer g mid = Inr s' \<and> turns_to_play mid = t \<and>
     next_non_chance_player mid = n \<and> length (hands mid) = l"
  by blast

lemma ApplyMove_frame:
  assumes "ApplyMove g s m = Inr s'"
  shows "\<exists>mid. AdvanceToNextPlayer g mid = Inr s' \<and>
           turns_to_play mid = turns_to_play (count_down s) \<and>
           next_non_chance_player mid = next_non_chance_player s \<and>
           length (hands mid) = length (hands s)"
proof (cases "MoveType m")
  case kInvalid
  with ApplyMove_not_kInvalid [OF assms] show ?thesis by simp
next
  case kPlay
  with assms obtain c hand sc tok s0 h1 where p:
    "elem (hands s) (cur_player s) = Inr hand"
    "elem (Cards hand) (CardIndex m) = Inr c"
    "AddToFireworks g (count_down s) c = Inr ((sc, tok), s0)"
    "scored h1 = sc" "information_token h1 = tok"
    "AdvanceToNextPlayer g
       (s0\<lparr>hands := (hands s)[nat (cur_player s) := hand_without hand (CardIndex m)],
           discard_pile := (if sc then discard_pile s else discard_pile s @ [c]),
           move_history := move_history s @ [h1]\<rparr>) = Inr s'"
    by (rule ApplyMove_kPlay)
  note f = AddToFireworks_frame(4,5) [OF p(3)]
  show ?thesis
    by (rule ex_mid [OF p(6)]) (simp_all add: f del: count_down_simps(10))
next
  case kDiscard
  with assms obtain c hand h1 where p:
    "elem (hands s) (cur_player s) = Inr hand"
    "elem (Cards hand) (CardIndex m) = Inr c"
    "AdvanceToNextPlayer g
       ((count_down s)\<lparr>information_tokens :=
            (if information_tokens s < MaxInformationTokens g then information_tokens s + 1
             else information_tokens s),
          hands := (hands s)[nat (cur_player s) := hand_without hand (CardIndex m)],
          discard_pile := discard_pile s @ [c],
          move_history := move_history s @ [h1]\<rparr>) = Inr s'"
    by (rule ApplyMove_kDiscard)
  show ?thesis
    by (rule ex_mid [OF p(3)]) (simp_all del: count_down_simps(10))
next
  case kRevealColor
  with assms obtain i h1 where p:
    "0 < information_tokens s" "0 \<le> i" "i < int (length (hands s))"
    "AdvanceToNextPlayer g
       ((count_down s)\<lparr>information_tokens := information_tokens s - 1,
          hands := (hands s)[nat i := snd (RevealColor (hands s ! nat i) (MoveColor m))],
          move_history := move_history s @ [h1]\<rparr>) = Inr s'"
    by (rule ApplyMove_kRevealColor)
  show ?thesis
    by (rule ex_mid [OF p(4)]) (simp_all del: count_down_simps(10))
next
  case kRevealRank
  with assms obtain i h1 where p:
    "0 < information_tokens s" "0 \<le> i" "i < int (length (hands s))"
    "AdvanceToNextPlayer g
       ((count_down s)\<lparr>information_tokens := information_tokens s - 1,
          hands := (hands s)[nat i := snd (RevealRank (hands s ! nat i) (MoveRank m))],
          move_history := move_history s @ [h1]\<rparr>) = Inr s'"
    by (rule ApplyMove_kRevealRank)
  show ?thesis
    by (rule ex_mid [OF p(4)]) (simp_all del: count_down_simps(10))
next
  case kDeal
  with assms obtain c d hand k h1 where p:
    "DealCard (deck s) (MoveColor m) (MoveRank m) = Inr (c, d)"
    "elem (hands s) (PlayerToDeal g s) = Inr hand"
    "AdvanceToNextPlayer g
       ((count_down s)\<lparr>deck := d,
          hands := (hands s)[nat (PlayerToDeal g s) := Hand_AddCard hand c k],
          move_history := move_history s @ [h1]\<rparr>) = Inr s'"
    by (rule ApplyMove_kDeal)
  show ?thesis
    by (rule ex_mid [OF p(3)]) (simp_all del: count_down_simps(10))
qed

lemma ApplyMove_turns:
  assumes "ApplyMove g s m = Inr s'"
  shows "turns_to_play s' = (if Empty (deck s) then turns_to_play s - 1 else turns_to_play s)"
proof -
  from ApplyMove_frame [OF assms] obtain mid where
    "AdvanceToNextPlayer g mid = Inr s'" "turns_to_play mid = turns_to_play (count_down s)"
    by blast
  with AdvanceToNextPlayer_fields(7) [of g mid s'] show ?thesis by simp
qed

lemma CardPlayableOnFireworks_count_down [simp]:
  "CardPlayableOnFireworks g (count_down s) c r = CardPlayableOnFireworks g s c r"
  by (simp add: CardPlayableOnFireworks_def)

lemma ApplyMove_cases [consumes 1, case_names Deal Discard Scored Misplayed RevealColor RevealRank]:
  assumes "ApplyMove g s m = Inr s'"
  obtains
    (Deal) c d hand k where "MoveType m = kDeal"
      "DealCard (deck s) (MoveColor m) (MoveRank m) = Inr (c, d)"
      "elem (hands s) (PlayerToDeal g s) = Inr hand"
      "deck s' = d"
      "hands s' = (hands s)[nat (PlayerToDeal g s) := Hand_AddCard hand c k]"
      "discard_pile s' = discard_pile s" "fireworks s' = fireworks s"
      "information_tokens s' = information_tokens s" "life_tokens s' = life_tokens s"
  | (Discard) c hand where "MoveType m = kDiscard"
      "elem (hands s) (cur_player s) = Inr hand" "elem (Cards hand) (CardIndex m) = Inr c"
      "deck s' = deck s"
      "hands s' = (hands s)[nat (cur_player s) := hand_without hand (CardIndex m)]"
      "discard_pile s' = discard_pile s @ [c]" "fireworks s' = fireworks s"
      "information_tokens s' =
         (if information_tokens s < MaxInformationTokens g then information_tokens s + 1
          else information_tokens s)"
      "life_tokens s' = life_tokens s"
  | (Scored) c hand h1 where "MoveType m = kPlay"
      "elem (hands s) (cur_player s) = Inr hand" "elem (Cards hand) (CardIndex m) = Inr c"
      "0 \<le> Color c" "Color c < NumColors g" "elem (fireworks s) (Color c) = Inr (Rank c)"
      "deck s' = deck s"
      "hands s' = (hands s)[nat (cur_player s) := hand_without hand (CardIndex m)]"
      "discard_pile s' = discard_pile s"
      "fireworks s' = (fireworks s)[nat (Color c) := Rank c + 1]"
      "information_tokens s' =
         (if Rank c + 1 = NumRanks g \<and> information_tokens s < MaxInformationTokens g
          then information_tokens s + 1 else information_tokens s)"
      "life_tokens s' = life_tokens s"
      "move_history s' = move_history s @ [h1]" "scored h1"
      "information_token h1 =
         (Rank c + 1 = NumRanks g \<and> information_tokens s < MaxInformationTokens g)"
  | (Misplayed) c hand h1 where "MoveType m = kPlay"
      "elem (hands s) (cur_player s) = Inr hand" "elem (Cards hand) (CardIndex m) = Inr c"
      "CardPlayableOnFireworks g s (Color c) (Rank c) = Inr False" "0 < life_tokens s"
      "deck s' = deck s"
      "hands s' = (hands s)[nat (cur_player s) := hand_without hand (CardIndex m)]"
      "discard_pile s' = discard_pile s @ [c]" "fireworks s' = fireworks s"
      "information_tokens s' = information_tokens s" "life_tokens s' = life_tokens s - 1"
      "move_history s' = move_history s @ [h1]" "\<not> scored h1" "\<not> information_token h1"
  | (RevealColor) i where "MoveType m = kRevealColor"
      "0 < information_tokens s" "0 \<le> i" "i < int (length (hands s))"
      "deck s' = deck s"
      "hands s' = (hands s)[nat i := snd (RevealColor (hands s ! nat i) (MoveColor m))]"
      "discard_pile s' = discard_pile s" "fireworks s' = fireworks s"
      "information_tokens s' = information_tokens s - 1" "life_tokens s' = life_tokens s"
  | (RevealRank) i where "MoveType m = kRevealRank"
      "0 < information_tokens s" "0 \<le> i" "i < int (length (hands s))"
      "deck s' = deck s"
      "hands s' = (hands s)[nat i := snd (RevealRank (hands s ! nat i) (MoveRank m))]"
      "discard_pile s' = discard_pile s" "fireworks s' = fireworks s"
      "information_tokens s' = information_tokens s - 1" "life_tokens s' = life_tokens s"
proof (cases "MoveType m")
  case kInvalid
  with ApplyMove_not_kInvalid [OF assms] show ?thesis by simp
next
  case kDeal
  with assms obtain c d hand k h1 where p:
    "DealCard (deck s) (MoveColor m) (MoveRank m) = Inr (c, d)"
    "elem (hands s) (PlayerToDeal g s) = Inr hand"
    "AdvanceToNextPlayer g
       ((count_down s)\<lparr>deck := d,
          hands := (hands s)[nat (PlayerToDeal g s) := Hand_AddCard hand c k],
          move_history := move_history s @ [h1]\<rparr>) = Inr s'"
    by (rule ApplyMove_kDeal)
  note f = AdvanceToNextPlayer_fields [OF p(3)]
  show ?thesis
    by (rule Deal [OF kDeal p(1,2)]) (simp_all add: f)
next
  case kDiscard
  with assms obtain c hand h1 where p:
    "elem (hands s) (cur_player s) = Inr hand"
    "elem (Cards hand) (CardIndex m) = Inr c"
    "AdvanceToNextPlayer g
       ((count_down s)\<lparr>information_tokens :=
            (if information_tokens s < MaxInformationTokens g then information_tokens s + 1
             else information_tokens s),
          hands := (hands s)[nat (cur_player s) := hand_without hand (CardIndex m)],
          discard_pile := discard_pile s @ [c],
          move_history := move_history s @ [h1]\<rparr>) = Inr s'"
    by (rule ApplyMove_kDiscard)
  note f = AdvanceToNextPlayer_fields [OF p(3)]
  show ?thesis
    by (rule Discard [OF kDiscard p(1,2)]) (simp_all add: f)
next
  case kRevealColor
  with assms obtain i h1 where p:
    "0 < information_tokens s" "0 \<le> i" "i < int (length (hands s))"
    "AdvanceToNextPlayer g
       ((count_down s)\<lparr>information_tokens := information_tokens s - 1,
          hands := (hands s)[nat i := snd (RevealColor (hands s ! nat i) (MoveColor m))],
          move_history := move_history s @ [h1]\<rparr>) = Inr s'"
    by (rule ApplyMove_kRevealColor)
  note f = AdvanceToNextPlayer_fields [OF p(4)]
  show ?thesis
    by (rule RevealColor [OF kRevealColor p(1-3)]) (simp_all add: f)
next
  case kRevealRank
  with assms obtain i h1 where p:
    "0 < information_tokens s" "0 \<le> i" "i < int (length (hands s))"
    "AdvanceToNextPlayer g
       ((count_down s)\<lparr>information_tokens := information_tokens s - 1,
          hands := (hands s)[nat i := snd (RevealRank (hands s ! nat i) (MoveRank m))],
          move_history := move_history s @ [h1]\<rparr>) = Inr s'"
    by (rule ApplyMove_kRevealRank)
  note f = AdvanceToNextPlayer_fields [OF p(4)]
  show ?thesis
    by (rule RevealRank [OF kRevealRank p(1-3)]) (simp_all add: f)
next
  case kPlay
  with assms obtain c hand sc tok s0 h1 where p:
    "elem (hands s) (cur_player s) = Inr hand"
    "elem (Cards hand) (CardIndex m) = Inr c"
    "AddToFireworks g (count_down s) c = Inr ((sc, tok), s0)"
    "scored h1 = sc" "information_token h1 = tok"
    "AdvanceToNextPlayer g
       (s0\<lparr>hands := (hands s)[nat (cur_player s) := hand_without hand (CardIndex m)],
           discard_pile := (if sc then discard_pile s else discard_pile s @ [c]),
           move_history := move_history s @ [h1]\<rparr>) = Inr s'"
    by (rule ApplyMove_kPlay)
  note f = AdvanceToNextPlayer_fields [OF p(6)]
  note e = AddToFireworks_effect [OF p(3)]
  show ?thesis
  proof (cases sc)
    case True
    with e have e': "0 \<le> Color c" "Color c < NumColors g"
      "elem (fireworks s) (Color c) = Inr (Rank c)"
      "tok = (Rank c + 1 = NumRanks g \<and> information_tokens s < MaxInformationTokens g)"
      "s0 = (count_down s)\<lparr>fireworks := (fireworks s)[nat (Color c) := Rank c + 1],
             information_tokens := (if tok then information_tokens s + 1 else information_tokens s)\<rparr>"
      by simp_all
    show ?thesis
      by (rule Scored [OF kPlay p(1,2) e'(1-3), of h1])
        (simp_all add: f e'(5) True p(4,5) e'(4) [symmetric])
  next
    case False
    with e have e': "\<not> tok" "0 < life_tokens s"
      "CardPlayableOnFireworks g s (Color c) (Rank c) = Inr False"
      "s0 = (count_down s)\<lparr>life_tokens := life_tokens s - 1\<rparr>"
      by simp_all
    show ?thesis
      by (rule Misplayed [OF kPlay p(1,2) e'(3,2), of h1])
        (simp_all add: f e'(4) False p(4,5) e'(1))
  qed
qed

lemma returns_state: "(case r of Inr x \<Rightarrow> True | Inl e \<Rightarrow> False) \<Longrightarrow> \<exists>x. r = Inr x"
  by (cases r) simp_all

subsection \<open>The constructor of the supply\<close>

lemma update_first_zero:
  "(xs @ replicate (Suc k) (0::int))[length xs := v] = xs @ v # replicate k 0"
  by (simp add: list_update_append)

lemma filled_step:
  assumes f: "filled g (c * nat (NumRanks g) + k) d"
    and c: "c < nat (NumColors g)" and k: "k < nat (NumRanks g)"
  shows "filled g (c * nat (NumRanks g) + Suc k) (deck_set_count g (int c) d (int k))"
proof -
  from k have "0 \<le> NumRanks g" by simp
  then obtain R where R: "NumRanks g = int R"
    using nonneg_int_cases by blast
  have nR: "nat (NumRanks g) = R" by (simp add: R)
  let ?C = "nat (NumColors g)"
  let ?n = "c * R + k"
  from f have nr: "num_ranks d = int R" by (simp add: filled_def R)
  have e: "CardToIndex d (int c) (int k) = int ?n"
    by (simp add: CardToIndex_def nr)
  have idx: "nat (CardToIndex d (int c) (int k)) = ?n"
    unfolding e by (rule nat_int)
  have "Suc c * R \<le> ?C * R"
    using c by (intro mult_le_mono1) simp
  with k have lt: "?n < ?C * R" by (simp add: nR)
  then obtain q where q: "?C * R - ?n = Suc q" "?C * R - Suc ?n = q"
    by (metis Suc_diff_Suc)
  have sc: "slot_count g ?n = NumberCardInstances g (int c) (int k)"
    using k by (simp add: slot_count_def nR)
  have cc: "(card_count d)[?n := slot_count g ?n] =
      map (slot_count g) [0..<Suc ?n] @ replicate (?C * R - Suc ?n) 0"
    using f update_first_zero [of "map (slot_count g) [0..<?n]" q "slot_count g ?n"]
    by (simp add: filled_def q nR)
  have "filled g (Suc ?n)
     (d\<lparr>card_count := (card_count d)[?n := slot_count g ?n],
        total_count := total_count d + slot_count g ?n\<rparr>)"
    using f unfolding filled_def nR cc by simp
  then show ?thesis
    unfolding deck_set_count_def Let_def idx sc [symmetric] nR by simp
qed

lemma filled_color:
  assumes "filled g (c * nat (NumRanks g)) d" "c < nat (NumColors g)" "k \<le> nat (NumRanks g)"
  shows "filled g (c * nat (NumRanks g) + k) (foldl (deck_set_count g (int c)) d (map int [0..<k]))"
  using assms(3)
proof (induction k)
  case 0
  with assms(1) show ?case by simp
next
  case (Suc k)
  then have "filled g (c * nat (NumRanks g) + k) (foldl (deck_set_count g (int c)) d (map int [0..<k]))"
    by simp
  from filled_step [OF this assms(2)] Suc.prems show ?case by simp
qed

lemma filled_next_color:
  assumes "filled g (c * nat (NumRanks g)) d" "c < nat (NumColors g)"
  shows "filled g (Suc c * nat (NumRanks g)) (deck_fill_color g d (int c))"
  using filled_color [OF assms, of "nat (NumRanks g)"]
  by (simp add: deck_fill_color_def add.commute)

lemma filled_colors:
  assumes "filled g 0 d" "c \<le> nat (NumColors g)"
  shows "filled g (c * nat (NumRanks g)) (foldl (deck_fill_color g) d (map int [0..<c]))"
  using assms(2)
proof (induction c)
  case 0
  with assms(1) show ?case by simp
next
  case (Suc c)
  then have "filled g (c * nat (NumRanks g)) (foldl (deck_fill_color g) d (map int [0..<c]))"
    by simp
  from filled_next_color [OF this] Suc.prems show ?case
    by simp
qed

lemma NewHanabiDeck_filled:
  assumes "0 \<le> NumColors g" "0 \<le> NumRanks g"
  shows "filled g (nat (NumColors g) * nat (NumRanks g)) (NewHanabiDeck g)"
proof -
  have "filled g 0 \<lparr>card_count = replicate (nat (NumColors g * NumRanks g)) 0,
        total_count = 0, num_ranks = NumRanks g\<rparr>"
    using assms by (simp add: filled_def nat_mult_distrib)
  from filled_colors [OF this, of "nat (NumColors g)"] show ?thesis
    by (simp add: NewHanabiDeck_def)
qed

subsection \<open>Counting cards\<close>

lemma sum_list_update_int:
  "i < length xs \<Longrightarrow> sum_list (xs[i := v]) = sum_list xs - xs ! i + (v::int)"
  by (induction xs arbitrary: i) (auto split: nat.splits)

lemma held_update:
  "p < length hs \<Longrightarrow>
   held (hs[p := h']) x = held hs x - int (count_list (Cards (hs ! p)) x) + int (count_list (Cards h') x)"
  by (simp add: held_def map_update sum_list_update_int)

lemma count_list_without:
  assumes "i < length xs"
  shows "int (count_list (take i xs @ drop (Suc i) xs) x) =
         int (count_list xs x) - (if xs ! i = x then 1 else 0)"
proof -
  have "count_list xs x = count_list (take i xs @ xs ! i # drop (Suc i) xs) x"
    using id_take_nth_drop [OF assms] by simp
  then show ?thesis by (simp del: append_take_drop_id)
qed

lemma elem_Inr_nat: "elem xs i = Inr x \<Longrightarrow> nat i < length xs \<and> x = xs ! nat i"
  by (auto simp: elem_def split: if_splits)

lemma Cards_hand_without:
  assumes "elem (Cards h) i = Inr c"
  shows "int (count_list (Cards (hand_without h i)) x) =
         int (count_list (Cards h) x) - (if c = x then 1 else 0)"
proof -
  from elem_Inr_nat [OF assms] have i: "nat i < length (Cards h)" "c = Cards h ! nat i"
    by simp_all
  show ?thesis
    unfolding i(2) using count_list_without [OF i(1), of x] by (simp add: hand_without_def)
qed

lemma held_without:
  assumes "elem hs p = Inr h" "elem (Cards h) i = Inr c"
  shows "held (hs[nat p := hand_without h i]) x = held hs x - (if c = x then 1 else 0)"
proof -
  from elem_Inr_nat [OF assms(1)] have p: "nat p < length hs" "h = hs ! nat p"
    by simp_all
  show ?thesis
    using Cards_hand_without [OF assms(2), of x] unfolding held_update [OF p(1)] p(2) by simp
qed

lemma held_added:
  assumes "elem hs p = Inr h"
  shows "held (hs[nat p := Hand_AddCard h c k]) x = held hs x + (if c = x then 1 else 0)"
proof -
  from elem_Inr_nat [OF assms(1)] have p: "nat p < length hs" "h = hs ! nat p"
    by simp_all
  show ?thesis
    unfolding held_update [OF p(1)] p(2) by (simp add: Hand_AddCard_def)
qed

lemma held_same_cards:
  assumes "0 \<le> i" "i < int (length hs)" "Cards h' = Cards (hs ! nat i)"
  shows "held (hs[nat i := h']) x = held hs x"
proof -
  from assms(1,2) have "nat i < length hs" by simp
  from held_update [OF this] assms(3) show ?thesis by simp
qed

lemma identity_slot:
  assumes "game_identity g c r" "supply_shape g d"
  shows "0 \<le> CardToIndex d c r" "CardToIndex d c r < int (length (card_count d))"
proof -
  from assms have a: "0 \<le> c" "c < NumColors g" "0 \<le> r" "r < NumRanks g"
      "num_ranks d = NumRanks g" "length (card_count d) = nat (NumColors g) * nat (NumRanks g)"
    by (simp_all add: game_identity_def supply_shape_def)
  show "0 \<le> CardToIndex d c r"
    using a by (simp add: CardToIndex_def)
  have "c * NumRanks g + r < (c + 1) * NumRanks g"
    using a by (simp add: algebra_simps)
  also have "\<dots> \<le> NumColors g * NumRanks g"
    using a by (intro mult_right_mono) simp_all
  finally show "CardToIndex d c r < int (length (card_count d))"
    using a by (simp add: CardToIndex_def nat_mult_distrib [symmetric])
qed

lemma card_of_slot:
  assumes "0 \<le> r" "r < n"
  shows "HanabiCard (i div n) (i mod n) = HanabiCard c r \<longleftrightarrow> i = c * n + r"
proof
  assume "HanabiCard (i div n) (i mod n) = HanabiCard c r"
  then have "i div n = c" "i mod n = r" by simp_all
  then show "i = c * n + r"
    using div_mult_mod_eq [of i n] by simp
next
  assume "i = c * n + r"
  with assms show "HanabiCard (i div n) (i mod n) = HanabiCard c r"
    by simp
qed

lemma deal_step:
  assumes shape: "supply_shape g d" and cons: "deck_consistent d"
    and n: "CardCount d mc mr = Inr n" "n \<noteq> 0"
    and deal: "DealCard d mc mr = Inr (x, d')"
  shows "supply_shape g d'" "deck_consistent d'"
    "game_identity g c r \<Longrightarrow>
       count_of d' c r + (if x = HanabiCard c r then 1 else 0) = count_of d c r"
proof -
  let ?i = "CardToIndex d mc mr"
  let ?cc = "card_count d"
  from n(1) have i: "0 \<le> ?i" "?i < int (length ?cc)" "n = ?cc ! nat ?i"
    by (simp_all add: CardCount_def elem_Inr_iff)
  then have il: "nat ?i < length ?cc" by simp
  from cons have nn: "list_all (\<lambda>n. 0 \<le> n) ?cc" and tot: "total_count d = sum_list ?cc"
    by (simp_all add: deck_consistent_def)
  have "0 \<le> n" using nn il i(3) by (simp add: list_all_length)
  with n(2) have pos: "0 < n" by simp
  from shape have nr: "num_ranks d = NumRanks g"
      and len: "length ?cc = nat (NumColors g) * nat (NumRanks g)"
    by (simp_all add: supply_shape_def)
  have R: "0 < NumRanks g"
  proof (rule ccontr)
    assume "\<not> 0 < NumRanks g"
    then have "nat (NumRanks g) = 0" by simp
    with len il show False by simp
  qed
  have x: "x = HanabiCard (?i div NumRanks g) (?i mod NumRanks g)"
    and d': "d' = d\<lparr>card_count := ?cc[nat ?i := n - 1], total_count := total_count d - 1\<rparr>"
    using deal i pos R
    by (simp_all add: DealCard_def Let_def elem_def IndexToCard_def IndexToColor_def
        IndexToRank_def nr sdiv_nonneg smod_nonneg)
  show "supply_shape g d'"
    using shape by (simp add: d' supply_shape_def)
  have "list_all (\<lambda>n. 0 \<le> n) (?cc[nat ?i := n - 1])"
    using nn pos il by (auto simp: list_all_length nth_list_update)
  then show "deck_consistent d'"
    using tot il i(3) by (simp add: d' deck_consistent_def sum_list_update_int)
  assume id: "game_identity g c r"
  then have r: "0 \<le> r" "r < NumRanks g" by (simp_all add: game_identity_def)
  let ?j = "CardToIndex d c r"
  have j: "0 \<le> ?j" by (rule identity_slot(1) [OF id shape])
  have same: "(x = HanabiCard c r) = (?i = ?j)"
    unfolding x CardToIndex_def nr by (rule card_of_slot [OF r])
  have "count_of d' c r = (if ?i = ?j then n - 1 else count_of d c r)"
    using il i(1) j by (auto simp: count_of_def d' nth_list_update nat_eq_iff)
  then show "count_of d' c r + (if x = HanabiCard c r then 1 else 0) = count_of d c r"
    unfolding same using i(3) by (auto simp: count_of_def)
qed

subsection \<open>The invariant of the reachable states\<close>

lemma legal_deal_count:
  assumes "MoveIsLegal g s m = Inr True" "MoveType m = kDeal"
  obtains n where "CardCount (deck s) (MoveColor m) (MoveRank m) = Inr n" "n \<noteq> 0"
  using assms by (auto simp: MoveIsLegal_def ebind_Inr_iff split: if_splits)

lemma played_scored:
  assumes "elem (fireworks s) (Color x) = Inr (Rank x)" "0 \<le> c"
    and "fireworks s' = (fireworks s)[nat (Color x) := Rank x + 1]"
  shows "played s' c r = played s c r + (if x = HanabiCard c r then 1 else 0)"
proof -
  from elem_Inr_nat [OF assms(1)] have f: "nat (Color x) < length (fireworks s)"
      "Rank x = fireworks s ! nat (Color x)"
    by simp_all
  from assms(1) have cx: "0 \<le> Color x" by (simp add: elem_Inr_iff)
  have eq: "(x = HanabiCard c r) = (c = Color x \<and> r = Rank x)"
    by (cases x) auto
  show ?thesis
  proof (cases "c = Color x")
    case True
    with f show ?thesis
      unfolding played_def assms(3) eq by auto
  next
    case False
    with cx assms(2) have "nat c \<noteq> nat (Color x)" by (simp add: nat_eq_iff)
    with False show ?thesis
      unfolding played_def assms(3) eq by simp
  qed
qed

lemma conserved_step:
  assumes inv: "state_inv g s" and app: "ApplyMove g s m = Inr s'"
  shows "state_inv g s'"
  using app
proof (cases rule: ApplyMove_cases)
  case (Deal x d hand k)
  from inv have shape: "supply_shape g (deck s)" and cons: "deck_consistent (deck s)"
    and fw: "int (length (fireworks s)) = NumColors g" and cv: "conserved g s"
    by (simp_all add: state_inv_def)
  from legal_deal_count [OF ApplyMove_legal [OF app] Deal(1)] obtain n where
    n: "CardCount (deck s) (MoveColor m) (MoveRank m) = Inr n" "n \<noteq> 0" by blast
  note st = deal_step [OF shape cons n Deal(2)]
  have "conserved g s'"
    unfolding conserved_def
  proof (intro allI impI)
    fix c r assume id: "game_identity g c r"
    from cv id have "count_of (deck s) c r + held (hands s) (HanabiCard c r) +
        int (count_list (discard_pile s) (HanabiCard c r)) + played s c r =
        NumberCardInstances g c r"
      by (simp add: conserved_def)
    moreover have "played s' c r = played s c r"
      by (simp add: played_def Deal)
    ultimately show "count_of (deck s') c r + held (hands s') (HanabiCard c r) +
        int (count_list (discard_pile s') (HanabiCard c r)) + played s' c r =
        NumberCardInstances g c r"
      using st(3) [OF id] unfolding Deal(4,5,6) held_added [OF Deal(3)] by (simp split: if_splits)
  qed
  with st(1,2) fw show ?thesis
    by (simp add: state_inv_def Deal)
next
  case (Discard x hand)
  have "conserved g s'"
    unfolding conserved_def
  proof (intro allI impI)
    fix c r assume id: "game_identity g c r"
    from inv id have "count_of (deck s) c r + held (hands s) (HanabiCard c r) +
        int (count_list (discard_pile s) (HanabiCard c r)) + played s c r =
        NumberCardInstances g c r"
      by (simp add: conserved_def state_inv_def)
    moreover have "played s' c r = played s c r"
      by (simp add: played_def Discard)
    ultimately show "count_of (deck s') c r + held (hands s') (HanabiCard c r) +
        int (count_list (discard_pile s') (HanabiCard c r)) + played s' c r =
        NumberCardInstances g c r"
      unfolding Discard(4,5,6) held_without [OF Discard(2,3)] by simp
  qed
  with inv show ?thesis
    by (simp add: state_inv_def Discard)
next
  case (Scored x hand h1)
  have "conserved g s'"
    unfolding conserved_def
  proof (intro allI impI)
    fix c r assume id: "game_identity g c r"
    then have c: "0 \<le> c" by (simp add: game_identity_def)
    from inv id have "count_of (deck s) c r + held (hands s) (HanabiCard c r) +
        int (count_list (discard_pile s) (HanabiCard c r)) + played s c r =
        NumberCardInstances g c r"
      by (simp add: conserved_def state_inv_def)
    then show "count_of (deck s') c r + held (hands s') (HanabiCard c r) +
        int (count_list (discard_pile s') (HanabiCard c r)) + played s' c r =
        NumberCardInstances g c r"
      unfolding Scored(7,8,9) held_without [OF Scored(2,3)]
        played_scored [OF Scored(6) c Scored(10)] by simp
  qed
  with inv show ?thesis
    by (simp add: state_inv_def Scored)
next
  case (Misplayed x hand h1)
  have "conserved g s'"
    unfolding conserved_def
  proof (intro allI impI)
    fix c r assume id: "game_identity g c r"
    from inv id have "count_of (deck s) c r + held (hands s) (HanabiCard c r) +
        int (count_list (discard_pile s) (HanabiCard c r)) + played s c r =
        NumberCardInstances g c r"
      by (simp add: conserved_def state_inv_def)
    moreover have "played s' c r = played s c r"
      by (simp add: played_def Misplayed)
    ultimately show "count_of (deck s') c r + held (hands s') (HanabiCard c r) +
        int (count_list (discard_pile s') (HanabiCard c r)) + played s' c r =
        NumberCardInstances g c r"
      unfolding Misplayed(6,7,8) held_without [OF Misplayed(2,3)] by simp
  qed
  with inv show ?thesis
    by (simp add: state_inv_def Misplayed)
next
  case (RevealColor i)
  have h: "held (hands s') x = held (hands s) x" for x
    unfolding RevealColor(6)
    by (rule held_same_cards [OF RevealColor(3,4)]) (rule RevealColor_Cards)
  have p: "played s' c r = played s c r" for c r
    by (simp add: played_def RevealColor)
  from inv show ?thesis
    by (simp add: state_inv_def conserved_def h p RevealColor(5,7,8))
next
  case (RevealRank i)
  have h: "held (hands s') x = held (hands s) x" for x
    unfolding RevealRank(6)
    by (rule held_same_cards [OF RevealRank(3,4)]) (rule RevealRank_Cards)
  have p: "played s' c r = played s c r" for c r
    by (simp add: played_def RevealRank)
  from inv show ?thesis
    by (simp add: state_inv_def conserved_def h p RevealRank(5,7,8))
qed

lemma held_empty: "held (replicate n EmptyHand) x = 0"
  by (induction n) (simp_all add: held_def EmptyHand_def)

lemma slot_of_identity:
  assumes "game_identity g c r"
  shows "slot_count g (nat (c * NumRanks g + r)) = NumberCardInstances g c r"
proof -
  from assms have a: "0 \<le> c" "0 \<le> r" "r < NumRanks g"
    by (simp_all add: game_identity_def)
  from a(1) obtain C where C: "c = int C" using nonneg_int_cases by blast
  from a(2) obtain k where K: "r = int k" using nonneg_int_cases by blast
  from a(2,3) have "0 \<le> NumRanks g" by simp
  then obtain R where R: "NumRanks g = int R" using nonneg_int_cases by blast
  note e = R C K
  from a(3) have k: "k < R" by (simp add: e)
  have "c * NumRanks g + r = int (C * R + k)" by (simp add: e)
  then have "nat (c * NumRanks g + r) = C * R + k" by (simp only: nat_int)
  with k show ?thesis by (simp add: slot_count_def e)
qed

lemma fresh_inv:
  assumes "multiplicities_ok g"
  shows "state_inv g (NewHanabiState g start_player)"
proof -
  from assms have nn: "0 \<le> NumColors g" "0 \<le> NumRanks g"
      and m: "list_all (\<lambda>j. 0 \<le> slot_count g j) [0..<nat (NumColors g) * nat (NumRanks g)]"
    by (simp_all add: multiplicities_ok_def)
  let ?L = "nat (NumColors g) * nat (NumRanks g)"
  from NewHanabiDeck_filled [OF nn] have f: "num_ranks (NewHanabiDeck g) = NumRanks g"
      "card_count (NewHanabiDeck g) = map (slot_count g) [0..<?L]"
      "total_count (NewHanabiDeck g) = sum_list (map (slot_count g) [0..<?L])"
    by (simp_all add: filled_def)
  have shape: "supply_shape g (NewHanabiDeck g)"
    by (simp add: supply_shape_def f)
  have cons: "deck_consistent (NewHanabiDeck g)"
    using m by (simp add: deck_consistent_def f list_all_iff)
  have cv: "conserved g (NewHanabiState g start_player)"
    unfolding conserved_def
  proof (intro allI impI)
    fix c r assume id: "game_identity g c r"
    let ?s = "NewHanabiState g start_player"
    have d: "deck ?s = NewHanabiDeck g" by (simp add: NewHanabiState_def)
    from identity_slot [OF id shape]
    have "nat (CardToIndex (NewHanabiDeck g) c r) < length (card_count (NewHanabiDeck g))"
      by simp
    then have j: "nat (CardToIndex (NewHanabiDeck g) c r) < ?L"
      by (simp add: f(2))
    have "count_of (deck ?s) c r = slot_count g (nat (c * NumRanks g + r))"
      using j by (simp add: d count_of_def f(2)) (simp add: CardToIndex_def f(1))
    then have 1: "count_of (deck ?s) c r = NumberCardInstances g c r"
      by (simp add: slot_of_identity [OF id])
    have 2: "held (hands ?s) (HanabiCard c r) = 0"
      by (simp add: NewHanabiState_def held_empty)
    have 3: "count_list (discard_pile ?s) (HanabiCard c r) = 0"
      by (simp add: NewHanabiState_def)
    from id have "nat c < nat (NumColors g)" "0 \<le> r"
      by (simp_all add: game_identity_def)
    then have 4: "played ?s c r = 0"
      by (simp add: played_def NewHanabiState_def)
    show "count_of (deck ?s) c r + held (hands ?s) (HanabiCard c r) +
        int (count_list (discard_pile ?s) (HanabiCard c r)) + played ?s c r =
        NumberCardInstances g c r"
      by (simp add: 1 2 3 4)
  qed
  have fwl: "int (length (fireworks (NewHanabiState g start_player))) = NumColors g"
    using nn by (simp add: NewHanabiState_def)
  have dk: "deck (NewHanabiState g start_player) = NewHanabiDeck g"
    by (simp add: NewHanabiState_def)
  show ?thesis
    unfolding state_inv_def dk by (intro conjI shape cons fwl cv)
qed

lemma reachable_inv:
  assumes "multiplicities_ok g" "reachable g s"
  shows "state_inv g s"
  using assms(2)
proof (induction rule: reachable.induct)
  case (fresh start_player)
  show ?case by (rule fresh_inv [OF assms(1)])
next
  case (move s m s')
  from move.IH move.hyps(2) show ?case by (rule conserved_step)
qed

subsection \<open>A game that is played out\<close>

lemma first_moves_run: "ApplyMoves tiny_game (NewHanabiState tiny_game 0) first_moves = Inr state_z"
  by code_simp

lemma reachable_ApplyMoves:
  "reachable g s \<Longrightarrow> ApplyMoves g s ms = Inr s' \<Longrightarrow> reachable g s'"
proof (induction ms arbitrary: s)
  case Nil
  then show ?case by simp
next
  case (Cons m ms)
  from Cons.prems(2) obtain s1 where s1: "ApplyMove g s m = Inr s1" "ApplyMoves g s1 ms = Inr s'"
    by (auto simp: ebind_Inr_iff)
  from Cons.prems(1) s1(1) have "reachable g s1" by (rule reachable.move)
  from Cons.IH [OF this s1(2)] show ?case .
qed

lemma state_z_reachable: "reachable tiny_game state_z"
  using reachable.fresh first_moves_run by (rule reachable_ApplyMoves)

lemma Play_returns:
  assumes t: "MoveType m = kPlay" and l: "MoveIsLegal g s m = Inr True"
    and h: "elem (hands s) (cur_player s) = Inr hand" and c: "elem (Cards hand) (CardIndex m) = Inr c"
    and col: "0 \<le> Color c" "Color c < NumColors g" "int (length (fireworks s)) = NumColors g"
    and life: "Rank c = fireworks s ! nat (Color c) \<or> 0 < life_tokens s"
  shows "\<exists>s'. ApplyMove g s m = Inr s'"
proof -
  let ?s = "count_down s"
  have f: "elem (fireworks ?s) (Color c) = Inr (fireworks s ! nat (Color c))"
    using col by (simp add: elem_def)
  have "\<exists>sc tok s0. AddToFireworks g ?s c = Inr ((sc, tok), s0) \<and> hands s0 = hands s \<and>
      cur_player s0 = cur_player s"
    using col f life
    by (auto simp: AddToFireworks_def CardPlayableOnFireworks_def Let_def
        IncrementInformationTokens_def DecrementLifeTokens_def simp del: count_down_simps(10))
  then obtain sc tok s0 where a: "AddToFireworks g ?s c = Inr ((sc, tok), s0)"
      "hands s0 = hands s" "cur_player s0 = cur_player s"
    by blast
  from h have ne: "hands s \<noteq> []" by (auto simp: elem_def split: if_splits)
  have p: "\<exists>s1 h1. apply_kPlay g ?s ((NewHistoryItem m)\<lparr>player := cur_player ?s\<rparr>) m = Inr (s1, h1) \<and>
      hands s1 \<noteq> []"
    using h c a ne
    by (simp add: apply_kPlay_def RemoveFromHand_effect [OF c] del: count_down_simps(10))
  then obtain s1 h1 where s1:
      "apply_kPlay g ?s ((NewHistoryItem m)\<lparr>player := cur_player ?s\<rparr>) m = Inr (s1, h1)"
      "hands s1 \<noteq> []"
    by blast
  have "\<exists>s'. AdvanceToNextPlayer g (s1\<lparr>move_history := move_history s1 @ [h1]\<rparr>) = Inr s'"
    using s1(2) by (simp add: AdvanceToNextPlayer_def)
  then show ?thesis
    unfolding ApplyMove_alt using l t s1(1) by simp
qed


subsection \<open>C2: terminal status and score\<close>

text \<open>
  Claim C2. \<open>EndOfGameStatus()\<close> is a total function of the state: out of life tokens
  when the life tokens are at zero; otherwise completed when the total fireworks
  progress equals \<open>NumColors * NumRanks\<close>; otherwise out of cards when the countdown of
  turns is at or below zero; otherwise not finished. \<open>Score()\<close> is 0 when the life
  tokens are at zero and the sum of the fireworks counters otherwise, whatever the
  terminal condition. The state is one of the data model: life tokens are not
  negative and no fireworks counter exceeds the number of ranks.
\<close>

theorem EndOfGameStatus_Score:
  assumes "0 \<le> life_tokens s" and "fireworks_in_range g s"
  shows "EndOfGameStatus g s =
           (if life_tokens s = 0 then kOutOfLifeTokens
            else if sum_list (fireworks s) = NumColors g * NumRanks g then kCompletedFireworks
            else if turns_to_play s \<le> 0 then kOutOfCards
            else kNotFinished) \<and>
         Score s = (if life_tokens s = 0 then 0 else sum_list (fireworks s))"
proof -
  have "sum_list (fireworks s) \<le> int (length (fireworks s)) * NumRanks g"
    using assms(2) by (intro sum_list_bounded) (simp add: fireworks_in_range_def)
  also have "\<dots> = NumColors g * NumRanks g"
    using assms(2) by (simp add: fireworks_in_range_def)
  finally have "sum_list (fireworks s) \<le> NumColors g * NumRanks g" .
  with assms(1) show ?thesis
    by (auto simp: EndOfGameStatus_def Score_def foldl_plus)
qed


theorem EndOfGameStatus_Score_witness:
  "0 \<le> life_tokens state_a \<and> fireworks_in_range tiny_game state_a \<and>
   EndOfGameStatus tiny_game state_a = kNotFinished \<and> Score state_a = 1 \<and>
   0 \<le> life_tokens (state_a\<lparr>fireworks := [2, 2]\<rparr>) \<and>
   fireworks_in_range tiny_game (state_a\<lparr>fireworks := [2, 2]\<rparr>) \<and>
   EndOfGameStatus tiny_game (state_a\<lparr>fireworks := [2, 2]\<rparr>) = kCompletedFireworks \<and>
   Score (state_a\<lparr>fireworks := [2, 2]\<rparr>) = 4"
proof -
  have h: "0 \<le> life_tokens state_a" "fireworks_in_range tiny_game state_a"
    by (simp_all add: fireworks_in_range_def state_a_simps)
  have h': "0 \<le> life_tokens (state_a\<lparr>fireworks := [2, 2]\<rparr>)"
      "fireworks_in_range tiny_game (state_a\<lparr>fireworks := [2, 2]\<rparr>)"
    by (simp_all add: fireworks_in_range_def state_a_simps)
  from EndOfGameStatus_Score [OF h] EndOfGameStatus_Score [OF h'] h h'
  show ?thesis
    by (simp add: state_a_simps)
qed

subsection \<open>C3: the legality table\<close>

lemma MoveIsLegal_card_index:
  assumes "elem (hands s) (cur_player s) = Inr h" "signed_value (CardIndex m)"
    "signed_value (int (length (Cards h)))"
  shows "ebind (elem (hands s) (cur_player s)) (\<lambda>h.
            if to_size_t (CardIndex m) \<ge> int (length (Cards h)) then Inr False else Inr True)
         = Inr (valid_index h (CardIndex m))"
  using assms by (simp add: index_check valid_index_def)

lemma HandByOffset_defined: "hands s \<noteq> [] \<Longrightarrow> \<exists>h. HandByOffset s offset = Inr h"
  by (simp add: HandByOffset_def HandIndexByOffset_def elem_def to_size_t_def)

text \<open>
  Where every vector element that \<open>MoveIsLegal\<close> reads exists (a Play or a Discard
  judged for a player, a Deal that names an identity of the supply), it returns
  the value of the specification's table.
\<close>

lemma MoveIsLegal_table:
  assumes "legality_defined g s m"
  shows "MoveIsLegal g s m = Inr (table_legal g s m)"
proof (cases "MoveType m")
  case kInvalid
  then show ?thesis by (simp add: MoveIsLegal_def table_legal_def)
next
  case kPlay
  with assms obtain h where h: "elem (hands s) (cur_player s) = Inr h"
      "signed_value (CardIndex m)" "signed_value (int (length (Cards h)))"
    by (auto simp: legality_defined_def split: sum.splits)
  show ?thesis
    using h(1) MoveIsLegal_card_index [OF h] by (simp add: MoveIsLegal_def table_legal_def kPlay)
next
  case kDiscard
  show ?thesis
  proof (cases "information_tokens s < MaxInformationTokens g")
    case False
    with kDiscard show ?thesis by (simp add: MoveIsLegal_def table_legal_def)
  next
    case True
    with assms kDiscard obtain h where h: "elem (hands s) (cur_player s) = Inr h"
        "signed_value (CardIndex m)" "signed_value (int (length (Cards h)))"
      by (auto simp: legality_defined_def split: sum.splits)
    show ?thesis
      using True h(1) MoveIsLegal_card_index [OF h]
      by (simp add: MoveIsLegal_def table_legal_def kDiscard)
  qed
next
  case kRevealColor
  show ?thesis
  proof (cases "HintingIsLegal g s m")
    case False
    then have "\<not> (0 < information_tokens s \<and> 1 \<le> TargetOffset m \<and> TargetOffset m < NumPlayers g)"
      by (auto simp: HintingIsLegal_def split: if_splits)
    with False kRevealColor show ?thesis
      by (auto simp: MoveIsLegal_def table_legal_def)
  next
    case True
    then have h: "0 < information_tokens s" "1 \<le> TargetOffset m" "TargetOffset m < NumPlayers g"
      by (auto simp: HintingIsLegal_def split: if_splits)
    with assms kRevealColor have ne: "hands s \<noteq> []"
      by (auto simp: legality_defined_def)
    then obtain h' where "HandByOffset s (TargetOffset m) = Inr h'"
      using HandByOffset_defined by blast
    with kRevealColor True h show ?thesis
      by (simp add: MoveIsLegal_def table_legal_def list_ex_iff)
  qed
next
  case kRevealRank
  show ?thesis
  proof (cases "HintingIsLegal g s m")
    case False
    then have "\<not> (0 < information_tokens s \<and> 1 \<le> TargetOffset m \<and> TargetOffset m < NumPlayers g)"
      by (auto simp: HintingIsLegal_def split: if_splits)
    with False kRevealRank show ?thesis
      by (auto simp: MoveIsLegal_def table_legal_def)
  next
    case True
    then have h: "0 < information_tokens s" "1 \<le> TargetOffset m" "TargetOffset m < NumPlayers g"
      by (auto simp: HintingIsLegal_def split: if_splits)
    with assms kRevealRank have ne: "hands s \<noteq> []"
      by (auto simp: legality_defined_def)
    then obtain h' where "HandByOffset s (TargetOffset m) = Inr h'"
      using HandByOffset_defined by blast
    with kRevealRank True h show ?thesis
      by (simp add: MoveIsLegal_def table_legal_def list_ex_iff)
  qed
next
  case kDeal
  show ?thesis
  proof (cases "cur_player s = kChancePlayerId")
    case False
    with kDeal show ?thesis by (simp add: MoveIsLegal_def table_legal_def)
  next
    case True
    with assms kDeal have i: "deck_identity (deck s) (MoveColor m) (MoveRank m)"
      and n: "0 \<le> count_of (deck s) (MoveColor m) (MoveRank m)"
      by (simp_all add: legality_defined_def)
    from i have "CardCount (deck s) (MoveColor m) (MoveRank m) =
        Inr (count_of (deck s) (MoveColor m) (MoveRank m))"
      by (simp add: CardCount_identity count_of_def)
    with True kDeal i n show ?thesis by (auto simp: MoveIsLegal_def table_legal_def)
  qed
qed

lemma MoveIsLegal_table_example:
  "legality_defined tiny_game state_a (PlayMove 1) \<and>
   MoveIsLegal tiny_game state_a (PlayMove 1) = Inr True \<and>
   legality_defined tiny_game state_a (PlayMove 2) \<and>
   MoveIsLegal tiny_game state_a (PlayMove 2) = Inr False \<and>
   legality_defined tiny_game state_a (DiscardMove 0) \<and>
   MoveIsLegal tiny_game state_a (DiscardMove 0) = Inr True \<and>
   legality_defined tiny_game state_a (RevealColorMove 1 1) \<and>
   MoveIsLegal tiny_game state_a (RevealColorMove 1 1) = Inr True \<and>
   legality_defined tiny_game state_a (RevealRankMove 1 1) \<and>
   MoveIsLegal tiny_game state_a (RevealRankMove 1 1) = Inr False \<and>
   legality_defined tiny_game state_c (DealMove 1 1) \<and>
   MoveIsLegal tiny_game state_c (DealMove 1 1) = Inr True \<and>
   legality_defined tiny_game state_c (DealMove 0 0) \<and>
   MoveIsLegal tiny_game state_c (DealMove 0 0) = Inr False"
proof -
  have d: "legality_defined tiny_game state_a (PlayMove 1)"
      "legality_defined tiny_game state_a (PlayMove 2)"
      "legality_defined tiny_game state_a (DiscardMove 0)"
      "legality_defined tiny_game state_a (RevealColorMove 1 1)"
      "legality_defined tiny_game state_a (RevealRankMove 1 1)"
      "legality_defined tiny_game state_c (DealMove 1 1)"
      "legality_defined tiny_game state_c (DealMove 0 0)"
    by (simp_all add: legality_defined_def state_a_simps state_c_def elem_def signed_value_def
        deck_identity_def count_of_def CardToIndex_def kChancePlayerId_def)
  have t: "table_legal tiny_game state_a (PlayMove 1)"
      "\<not> table_legal tiny_game state_a (PlayMove 2)"
      "table_legal tiny_game state_a (DiscardMove 0)"
      "table_legal tiny_game state_a (RevealColorMove 1 1)"
      "\<not> table_legal tiny_game state_a (RevealRankMove 1 1)"
      "table_legal tiny_game state_c (DealMove 1 1)"
      "\<not> table_legal tiny_game state_c (DealMove 0 0)"
    by (simp_all add: table_legal_def state_a_simps state_c_def elem_def valid_index_def
        deck_identity_def count_of_def CardToIndex_def kChancePlayerId_def HandByOffset_def
        HandIndexByOffset_def to_size_t_def)
  from d t MoveIsLegal_table [OF d(1)] MoveIsLegal_table [OF d(2)] MoveIsLegal_table [OF d(3)]
    MoveIsLegal_table [OF d(4)] MoveIsLegal_table [OF d(5)] MoveIsLegal_table [OF d(6)]
    MoveIsLegal_table [OF d(7)]
  show ?thesis by simp
qed


text \<open>
  Claim C3. The legality predicate does not equal the specification's table for
  every state and every move. In the freshly constructed state of the game of two
  players the chance actor is the current actor and every hand is empty. The table
  makes Play(0) illegal there: the chance actor has no hand, so no index into it
  is valid. \<open>MoveIsLegal\<close> does not return: its \<open>kPlay\<close> case reads \<open>hands_[cur_player_]\<close>
  at the index \<open>-1\<close> of the chance actor, outside the vector, where the \<open>kDeal\<close> case
  tests the current actor first. In the same state the table makes the Deal of
  colour 0 and rank 3 illegal, for the game has ranks 0 and 1 only; \<open>MoveIsLegal\<close>
  returns true, because \<open>CardCount\<close> reads the slot \<open>0 * 2 + 3\<close> of colour 1 and rank 1,
  whose count is positive.
\<close>

theorem MoveIsLegal_chance_actor:
  "cur_player (NewHanabiState tiny_game 0) = kChancePlayerId \<and>
   hands (NewHanabiState tiny_game 0) = [EmptyHand, EmptyHand] \<and>
   table_legal tiny_game (NewHanabiState tiny_game 0) (PlayMove 0) = False \<and>
   MoveIsLegal tiny_game (NewHanabiState tiny_game 0) (PlayMove 0) = Inl OutOfRange \<and>
   table_legal tiny_game (NewHanabiState tiny_game 0) (DealMove 0 3) = False \<and>
   MoveIsLegal tiny_game (NewHanabiState tiny_game 0) (DealMove 0 3) = Inr True"
  by code_simp
subsection \<open>C1: playing a card\<close>

text \<open>
  With a life token left, or a card that fits, a legal Play applied by the current
  player has the effects that the specification describes: the application returns
  a state; the indexed card has left that player's hand; it scores iff its rank
  equals the fireworks progress of its colour. If it scores, the counter of the
  colour goes up by one, the discard pile is as it was, and exactly one information
  token is recovered iff the increment completes the rank range of the colour and
  the tokens are below the maximum. If it does not score, exactly one life token
  is spent, the fireworks are as they were and the card is appended to the discard
  pile. The card's colour is a colour of the game.
\<close>

lemma Play_effect:
  assumes t: "MoveType m = kPlay" and l: "MoveIsLegal g s m = Inr True"
    and h: "elem (hands s) (cur_player s) = Inr hand" and c: "elem (Cards hand) (CardIndex m) = Inr c"
    and col: "0 \<le> Color c" "Color c < NumColors g" "int (length (fireworks s)) = NumColors g"
    and life: "Rank c = fireworks s ! nat (Color c) \<or> 0 < life_tokens s"
  shows "\<exists>s' h1. ApplyMove g s m = Inr s' \<and>
     hands s' = (hands s)[nat (cur_player s) := hand_without hand (CardIndex m)] \<and>
     move_history s' = move_history s @ [h1] \<and>
     scored h1 = (Rank c = fireworks s ! nat (Color c)) \<and>
     (if Rank c = fireworks s ! nat (Color c)
      then fireworks s' = (fireworks s)[nat (Color c) := fireworks s ! nat (Color c) + 1] \<and>
           discard_pile s' = discard_pile s \<and> life_tokens s' = life_tokens s \<and>
           information_token h1 =
             (fireworks s ! nat (Color c) + 1 = NumRanks g \<and>
              information_tokens s < MaxInformationTokens g) \<and>
           information_tokens s' = information_tokens s + (if information_token h1 then 1 else 0)
      else life_tokens s' = life_tokens s - 1 \<and> fireworks s' = fireworks s \<and>
           discard_pile s' = discard_pile s @ [c] \<and>
           information_tokens s' = information_tokens s \<and> \<not> information_token h1)"
proof -
  from Play_returns [OF assms] obtain s' where s': "ApplyMove g s m = Inr s'" by blast
  have f: "elem (fireworks s) (Color c) = Inr (fireworks s ! nat (Color c))"
    using col by (simp add: elem_def)
  from s' show ?thesis
  proof (cases rule: ApplyMove_cases)
    case (Scored c' hand' h1)
    from Scored(2,3) h c have e: "hand' = hand" "c' = c" by simp_all
    from Scored(6) f have r: "Rank c = fireworks s ! nat (Color c)" by (simp add: e)
    show ?thesis
      using s' Scored(8-15) r unfolding e
      by (intro exI [of _ s'] exI [of _ h1]) simp
  next
    case (Misplayed c' hand' h1)
    from Misplayed(2,3) h c have e: "hand' = hand" "c' = c" by simp_all
    from Misplayed(4) f col have r: "Rank c \<noteq> fireworks s ! nat (Color c)"
      by (simp add: e CardPlayableOnFireworks_def)
    show ?thesis
      using s' Misplayed(7-14) r unfolding e
      by (intro exI [of _ s'] exI [of _ h1]) simp
  qed (simp_all add: t)
qed

lemma Play_effect_example:
  "MoveIsLegal tiny_game state_a (PlayMove 1) = Inr True \<and>
   Cards (hands state_a ! 0) ! 1 = HanabiCard 0 1 \<and> fireworks state_a = [1, 0] \<and>
   information_tokens state_a = 1 \<and>
   (\<exists>s' h1. ApplyMove tiny_game state_a (PlayMove 1) = Inr s' \<and>
      Cards (hands s' ! 0) = [HanabiCard 1 0] \<and> scored h1 \<and> information_token h1 \<and>
      move_history s' = move_history state_a @ [h1] \<and>
      fireworks s' = [2, 0] \<and> discard_pile s' = discard_pile state_a \<and>
      life_tokens s' = life_tokens state_a \<and> information_tokens s' = 2) \<and>
   MoveIsLegal tiny_game (state_a\<lparr>fireworks := [1, 1]\<rparr>) (PlayMove 0) = Inr True \<and>
   (\<exists>s' h1. ApplyMove tiny_game (state_a\<lparr>fireworks := [1, 1]\<rparr>) (PlayMove 0) = Inr s' \<and>
      Cards (hands s' ! 0) = [HanabiCard 0 1] \<and> \<not> scored h1 \<and> \<not> information_token h1 \<and>
      move_history s' = move_history state_a @ [h1] \<and>
      fireworks s' = [1, 1] \<and> discard_pile s' = discard_pile state_a @ [HanabiCard 1 0] \<and>
      life_tokens s' = 1 \<and> information_tokens s' = 1)"
proof -
  let ?b = "state_a\<lparr>fireworks := [1, 1]\<rparr>"
  have a: "MoveType (PlayMove 1) = kPlay" "MoveIsLegal tiny_game state_a (PlayMove 1) = Inr True"
      "elem (hands state_a) (cur_player state_a) = Inr (hands state_a ! 0)"
      "elem (Cards (hands state_a ! 0)) (CardIndex (PlayMove 1)) = Inr (HanabiCard 0 1)"
      "0 \<le> Color (HanabiCard 0 1)" "Color (HanabiCard 0 1) < NumColors tiny_game"
      "int (length (fireworks state_a)) = NumColors tiny_game"
      "Rank (HanabiCard 0 1) = fireworks state_a ! nat (Color (HanabiCard 0 1)) \<or>
       0 < life_tokens state_a"
    by code_simp+
  have b: "MoveType (PlayMove 0) = kPlay" "MoveIsLegal tiny_game ?b (PlayMove 0) = Inr True"
      "elem (hands ?b) (cur_player ?b) = Inr (hands state_a ! 0)"
      "elem (Cards (hands state_a ! 0)) (CardIndex (PlayMove 0)) = Inr (HanabiCard 1 0)"
      "0 \<le> Color (HanabiCard 1 0)" "Color (HanabiCard 1 0) < NumColors tiny_game"
      "int (length (fireworks ?b)) = NumColors tiny_game"
      "Rank (HanabiCard 1 0) = fireworks ?b ! nat (Color (HanabiCard 1 0)) \<or>
       0 < life_tokens ?b"
    by code_simp+
  have v: "Cards (hands state_a ! 0) ! 1 = HanabiCard 0 1" "fireworks state_a = [1, 0]"
      "information_tokens state_a = 1" "life_tokens state_a = 2"
      "NumRanks tiny_game = 2" "MaxInformationTokens tiny_game = 2" "cur_player state_a = 0"
      "Cards (hand_without (hands state_a ! 0) 1) = [HanabiCard 1 0]"
      "Cards (hand_without (hands state_a ! 0) 0) = [HanabiCard 0 1]"
      "length (hands state_a) = 2"
    by code_simp+
  from Play_effect [OF a] obtain s1 h1 where s1:
    "ApplyMove tiny_game state_a (PlayMove 1) = Inr s1"
    "hands s1 = (hands state_a)[nat (cur_player state_a) :=
                  hand_without (hands state_a ! 0) (CardIndex (PlayMove 1))]"
    "move_history s1 = move_history state_a @ [h1]"
    "scored h1 = (Rank (HanabiCard 0 1) = fireworks state_a ! nat (Color (HanabiCard 0 1)))"
    "if Rank (HanabiCard 0 1) = fireworks state_a ! nat (Color (HanabiCard 0 1))
     then fireworks s1 = (fireworks state_a)[nat (Color (HanabiCard 0 1)) :=
              fireworks state_a ! nat (Color (HanabiCard 0 1)) + 1] \<and>
          discard_pile s1 = discard_pile state_a \<and> life_tokens s1 = life_tokens state_a \<and>
          information_token h1 =
            (fireworks state_a ! nat (Color (HanabiCard 0 1)) + 1 = NumRanks tiny_game \<and>
             information_tokens state_a < MaxInformationTokens tiny_game) \<and>
          information_tokens s1 = information_tokens state_a + (if information_token h1 then 1 else 0)
     else life_tokens s1 = life_tokens state_a - 1 \<and> fireworks s1 = fireworks state_a \<and>
          discard_pile s1 = discard_pile state_a @ [HanabiCard 0 1] \<and>
          information_tokens s1 = information_tokens state_a \<and> \<not> information_token h1"
    by blast
  have 1: "\<exists>s' h1. ApplyMove tiny_game state_a (PlayMove 1) = Inr s' \<and>
      Cards (hands s' ! 0) = [HanabiCard 1 0] \<and> scored h1 \<and> information_token h1 \<and>
      move_history s' = move_history state_a @ [h1] \<and>
      fireworks s' = [2, 0] \<and> discard_pile s' = discard_pile state_a \<and>
      life_tokens s' = life_tokens state_a \<and> information_tokens s' = 2"
    using s1 v by (intro exI [of _ s1] exI [of _ h1]) (simp add: PlayMove_def)
  from Play_effect [OF b] obtain s2 h2 where s2:
    "ApplyMove tiny_game ?b (PlayMove 0) = Inr s2"
    "hands s2 = (hands ?b)[nat (cur_player ?b) :=
                  hand_without (hands state_a ! 0) (CardIndex (PlayMove 0))]"
    "move_history s2 = move_history ?b @ [h2]"
    "scored h2 = (Rank (HanabiCard 1 0) = fireworks ?b ! nat (Color (HanabiCard 1 0)))"
    "if Rank (HanabiCard 1 0) = fireworks ?b ! nat (Color (HanabiCard 1 0))
     then fireworks s2 = (fireworks ?b)[nat (Color (HanabiCard 1 0)) :=
              fireworks ?b ! nat (Color (HanabiCard 1 0)) + 1] \<and>
          discard_pile s2 = discard_pile ?b \<and> life_tokens s2 = life_tokens ?b \<and>
          information_token h2 =
            (fireworks ?b ! nat (Color (HanabiCard 1 0)) + 1 = NumRanks tiny_game \<and>
             information_tokens ?b < MaxInformationTokens tiny_game) \<and>
          information_tokens s2 = information_tokens ?b + (if information_token h2 then 1 else 0)
     else life_tokens s2 = life_tokens ?b - 1 \<and> fireworks s2 = fireworks ?b \<and>
          discard_pile s2 = discard_pile ?b @ [HanabiCard 1 0] \<and>
          information_tokens s2 = information_tokens ?b \<and> \<not> information_token h2"
    by blast
  have 2: "\<exists>s' h1. ApplyMove tiny_game ?b (PlayMove 0) = Inr s' \<and>
      Cards (hands s' ! 0) = [HanabiCard 0 1] \<and> \<not> scored h1 \<and> \<not> information_token h1 \<and>
      move_history s' = move_history state_a @ [h1] \<and>
      fireworks s' = [1, 1] \<and> discard_pile s' = discard_pile state_a @ [HanabiCard 1 0] \<and>
      life_tokens s' = 1 \<and> information_tokens s' = 1"
    using s2 v by (intro exI [of _ s2] exI [of _ h2]) (simp add: PlayMove_def)
  from a(2) b(2) v(1-3) 1 2 show ?thesis by simp
qed


subsection \<open>C4: the next actor\<close>

lemma player_to_deal_from_nonneg:
  "0 \<le> i \<Longrightarrow>
   (0 \<le> player_to_deal_from g i hs) =
     (\<exists>h \<in> set hs. int (length (Cards h)) < to_size_t (HandSize g))"
  by (induction hs arbitrary: i) auto

text \<open>
  Claim C4. After every applied move the current actor is the chance actor iff the
  supply is not empty and some hand is below the configured hand size (then the
  stored next player stays); otherwise the current actor is the stored next player,
  and the stored next player advances round-robin: its old value plus one, modulo
  the number of players. The hand size is not negative, and the state has one hand
  for each player and a player as the stored next player.
\<close>

theorem ApplyMove_next_actor:
  assumes "ApplyMove g s m = Inr s'"
    and "0 \<le> HandSize g" "signed_value (HandSize g)"
    and "int (length (hands s)) = NumPlayers g" "signed_value (NumPlayers g)"
    and "0 \<le> next_non_chance_player s" "next_non_chance_player s < NumPlayers g"
  shows "(cur_player s' = kChancePlayerId \<longleftrightarrow>
            \<not> Empty (deck s') \<and> (\<exists>h \<in> set (hands s'). int (length (Cards h)) < HandSize g)) \<and>
         (cur_player s' = kChancePlayerId \<longrightarrow>
            next_non_chance_player s' = next_non_chance_player s) \<and>
         (cur_player s' \<noteq> kChancePlayerId \<longrightarrow>
            cur_player s' = next_non_chance_player s \<and>
            next_non_chance_player s' = (next_non_chance_player s + 1) mod NumPlayers g)"
proof -
  from ApplyMove_frame [OF assms(1)] obtain mid where mid:
    "AdvanceToNextPlayer g mid = Inr s'"
    "next_non_chance_player mid = next_non_chance_player s"
    "length (hands mid) = length (hands s)"
    by blast
  note f = AdvanceToNextPlayer_fields(1,2) [OF mid(1)]
  have hs: "to_size_t (HandSize g) = HandSize g"
    using assms(2,3) by (rule to_size_t_nonneg)
  have "signed_value (next_non_chance_player s + 1)"
    using assms(5-7) by (simp add: signed_value_def)
  then have nn: "to_size_t (next_non_chance_player s + 1) = next_non_chance_player s + 1"
    using assms(6) by (intro to_size_t_nonneg) simp_all
  have ptd: "(0 \<le> PlayerToDeal g mid) =
      (\<exists>h \<in> set (hands s'). int (length (Cards h)) < HandSize g)"
    unfolding PlayerToDeal_def by (simp add: player_to_deal_from_nonneg hs f)
  show ?thesis
  proof (cases "\<not> Empty (deck mid) \<and> PlayerToDeal g mid \<ge> 0")
    case True
    with AdvanceToNextPlayer_effect [OF mid(1)] have "s' = mid\<lparr>cur_player := kChancePlayerId\<rparr>"
      by simp
    then have "cur_player s' = kChancePlayerId" "next_non_chance_player s' = next_non_chance_player mid"
      by simp_all
    with True ptd f mid(2) show ?thesis by simp
  next
    case False
    with AdvanceToNextPlayer_effect [OF mid(1)]
    have "s' = mid\<lparr>cur_player := next_non_chance_player mid,
                     next_non_chance_player :=
                       to_size_t (next_non_chance_player mid + 1) mod int (length (hands mid))\<rparr>"
      by (simp split: if_splits)
    then have "cur_player s' = next_non_chance_player s"
      "next_non_chance_player s' = (next_non_chance_player s + 1) mod NumPlayers g"
      using mid(2,3) nn assms(4) by simp_all
    moreover have "next_non_chance_player s \<noteq> kChancePlayerId"
      using assms(6) by (simp add: kChancePlayerId_def)
    ultimately show ?thesis
      using False ptd f by auto
  qed
qed

theorem ApplyMove_next_actor_witness:
  "(\<exists>s'. ApplyMove tiny_game state_a (PlayMove 0) = Inr s' \<and>
      \<not> Empty (deck s') \<and> (\<exists>h \<in> set (hands s'). int (length (Cards h)) < 2) \<and>
      cur_player s' = kChancePlayerId \<and> next_non_chance_player s' = 1) \<and>
   (\<exists>s'. ApplyMove tiny_game state_e (PlayMove 0) = Inr s' \<and> Empty (deck s') \<and>
      cur_player s' = 1 \<and> next_non_chance_player s' = 0)"
proof -
  have g: "0 \<le> HandSize tiny_game" "signed_value (HandSize tiny_game)"
      "signed_value (NumPlayers tiny_game)"
    by code_simp+
  have a: "int (length (hands state_a)) = NumPlayers tiny_game"
      "0 \<le> next_non_chance_player state_a"
      "next_non_chance_player state_a < NumPlayers tiny_game"
    by code_simp+
  have e: "int (length (hands state_e)) = NumPlayers tiny_game"
      "0 \<le> next_non_chance_player state_e"
      "next_non_chance_player state_e < NumPlayers tiny_game"
    by code_simp+
  have v: "next_non_chance_player state_a = 1" "next_non_chance_player state_e = 1"
      "NumPlayers tiny_game = 2" "HandSize tiny_game = 2"
    by code_simp+
  have "case ApplyMove tiny_game state_a (PlayMove 0) of
          Inr x \<Rightarrow> \<not> Empty (deck x) \<and> list_ex (\<lambda>h. int (length (Cards h)) < 2) (hands x)
        | Inl e \<Rightarrow> False"
    by code_simp
  then obtain s1 where s1: "ApplyMove tiny_game state_a (PlayMove 0) = Inr s1"
      "\<not> Empty (deck s1)" "\<exists>h \<in> set (hands s1). int (length (Cards h)) < 2"
    by (auto simp: list_ex_iff split: sum.splits)
  have "case ApplyMove tiny_game state_e (PlayMove 0) of Inr x \<Rightarrow> Empty (deck x) | Inl e \<Rightarrow> False"
    by code_simp
  then obtain s2 where s2: "ApplyMove tiny_game state_e (PlayMove 0) = Inr s2" "Empty (deck s2)"
    by (auto split: sum.splits)
  have "cur_player s1 = kChancePlayerId \<and> next_non_chance_player s1 = 1"
    using ApplyMove_next_actor [OF s1(1) g(1,2) a(1) g(3) a(2,3)] s1(2,3) v by simp
  moreover have "cur_player s2 = 1 \<and> next_non_chance_player s2 = 0"
    using ApplyMove_next_actor [OF s2(1) g(1,2) e(1) g(3) e(2,3)] s2(2) v by auto
  ultimately show ?thesis
    using s1 s2 by blast
qed

subsection \<open>C5: conservation of cards\<close>

text \<open>
  Claim C5. In every state reachable from a freshly constructed state by legal moves,
  for every identity of the game: the remaining count of the supply, plus the
  occurrences of the identity in all hands, plus its occurrences in the discard
  pile, plus one if its rank is below the fireworks progress of its colour, is the
  multiplicity configured for the identity; and the count is not negative. The
  configured multiplicities are not negative.
\<close>

theorem cards_conserved:
  assumes "multiplicities_ok g" and "reachable g s" and "game_identity g c r"
  shows "\<exists>n f. CardCount (deck s) c r = Inr n \<and> elem (fireworks s) c = Inr f \<and> 0 \<le> n \<and>
           n + held (hands s) (HanabiCard c r) +
           int (count_list (discard_pile s) (HanabiCard c r)) +
           (if r < f then 1 else 0) = NumberCardInstances g c r"
proof -
  from reachable_inv [OF assms(1,2)] have shape: "supply_shape g (deck s)"
      and cons: "deck_consistent (deck s)" and fw: "int (length (fireworks s)) = NumColors g"
      and cv: "conserved g s"
    by (simp_all add: state_inv_def)
  note j = identity_slot [OF assms(3) shape]
  then have n: "CardCount (deck s) c r = Inr (count_of (deck s) c r)"
    by (simp add: CardCount_def elem_def count_of_def)
  from assms(3) fw have f: "elem (fireworks s) c = Inr (fireworks s ! nat c)"
    by (simp add: elem_def game_identity_def)
  from cons j have "0 \<le> count_of (deck s) c r"
    by (simp add: deck_consistent_def list_all_length count_of_def)
  moreover from cv assms(3) have "count_of (deck s) c r + held (hands s) (HanabiCard c r) +
      int (count_list (discard_pile s) (HanabiCard c r)) +
      (if r < fireworks s ! nat c then 1 else 0) = NumberCardInstances g c r"
    by (simp add: conserved_def played_def)
  ultimately show ?thesis
    using n f by blast
qed

theorem cards_conserved_witness:
  "multiplicities_ok tiny_game \<and> reachable tiny_game state_z \<and> game_identity tiny_game 0 0 \<and>
   CardCount (deck state_z) 0 0 = Inr 0 \<and> elem (fireworks state_z) 0 = Inr 1 \<and>
   held (hands state_z) (HanabiCard 0 0) = 1 \<and>
   count_list (discard_pile state_z) (HanabiCard 0 0) = 0 \<and>
   NumberCardInstances tiny_game 0 0 = 2 \<and>
   (\<exists>n f. CardCount (deck state_z) 0 0 = Inr n \<and> elem (fireworks state_z) 0 = Inr f \<and> 0 \<le> n \<and>
      n + held (hands state_z) (HanabiCard 0 0) +
      int (count_list (discard_pile state_z) (HanabiCard 0 0)) + (if 0 < f then 1 else 0) =
      NumberCardInstances tiny_game 0 0)"
proof -
  have g: "multiplicities_ok tiny_game" "game_identity tiny_game 0 0"
    by code_simp+
  have v: "CardCount (deck state_z) 0 0 = Inr 0" "elem (fireworks state_z) 0 = Inr 1"
      "held (hands state_z) (HanabiCard 0 0) = 1"
      "count_list (discard_pile state_z) (HanabiCard 0 0) = 0"
      "NumberCardInstances tiny_game 0 0 = 2"
    by code_simp+
  from cards_conserved [OF g(1) state_z_reachable g(2)] g v state_z_reachable
  show ?thesis by blast
qed

subsection \<open>C6: token bounds\<close>

text \<open>
  Claim C6. In every state reachable by legal move applications, so after every
  move application, the information tokens lie between zero and
  \<open>MaxInformationTokens\<close> and the life tokens between zero and \<open>MaxLifeTokens\<close>. The
  configured maxima are not negative.
\<close>

theorem token_bounds:
  assumes "0 \<le> MaxInformationTokens g" and "0 \<le> MaxLifeTokens g" and "reachable g s"
  shows "0 \<le> information_tokens s \<and> information_tokens s \<le> MaxInformationTokens g \<and>
         0 \<le> life_tokens s \<and> life_tokens s \<le> MaxLifeTokens g"
  using assms(3)
proof (induction rule: reachable.induct)
  case (fresh start_player)
  from assms(1,2) show ?case by (simp add: NewHanabiState_def)
next
  case (move s m s')
  from move.hyps(2) move.IH show ?case
    by (cases rule: ApplyMove_cases) auto
qed

theorem token_bounds_witness:
  "0 \<le> MaxInformationTokens tiny_game \<and> 0 \<le> MaxLifeTokens tiny_game \<and>
   reachable tiny_game state_z \<and> information_tokens state_z = 2 \<and> life_tokens state_z = 0 \<and>
   0 \<le> information_tokens state_z \<and>
   information_tokens state_z \<le> MaxInformationTokens tiny_game \<and>
   0 \<le> life_tokens state_z \<and> life_tokens state_z \<le> MaxLifeTokens tiny_game"
proof -
  have g: "0 \<le> MaxInformationTokens tiny_game" "0 \<le> MaxLifeTokens tiny_game"
    by code_simp+
  have v: "information_tokens state_z = 2" "life_tokens state_z = 0"
    by code_simp+
  from token_bounds [OF g state_z_reachable] g v state_z_reachable
  show ?thesis by blast
qed

subsection \<open>C7: the countdown of turns\<close>

lemma nth_le_sum_list:
  "list_all (\<lambda>n. 0 \<le> n) xs \<Longrightarrow> i < length xs \<Longrightarrow> xs ! i \<le> sum_list (xs :: int list)"
proof (induction xs arbitrary: i)
  case Nil
  then show ?case by simp
next
  case (Cons x xs)
  have "0 \<le> sum_list xs"
    using Cons.prems(1) by (intro sum_list_nonneg) (simp add: list_all_iff)
  with Cons show ?case
    by (cases i) (auto simp: add.commute add_increasing)
qed

lemma legal_deal_not_empty:
  assumes "deck_consistent (deck s)" "MoveIsLegal g s m = Inr True" "MoveType m = kDeal"
  shows "\<not> Empty (deck s)"
proof -
  from assms(2,3) obtain n where n: "CardCount (deck s) (MoveColor m) (MoveRank m) = Inr n" "n \<noteq> 0"
    by (auto simp: MoveIsLegal_def ebind_Inr_iff split: if_splits)
  let ?i = "CardToIndex (deck s) (MoveColor m) (MoveRank m)"
  from n(1) have i: "0 \<le> ?i" "?i < int (length (card_count (deck s)))"
      "n = card_count (deck s) ! nat ?i"
    by (simp_all add: CardCount_def elem_Inr_iff)
  from assms(1) have nn: "list_all (\<lambda>n. 0 \<le> n) (card_count (deck s))"
    by (simp add: deck_consistent_def)
  have "0 \<le> n"
    using nn i by (simp add: list_all_length)
  with n(2) have "0 < n" by simp
  also have "n \<le> sum_list (card_count (deck s))"
    unfolding i(3) using nn i(1,2) by (intro nth_le_sum_list) simp_all
  finally show ?thesis
    using assms(1) by (simp add: Empty_def deck_consistent_def)
qed

text \<open>
  Claim C7. For every legally applied move: a move other than a Deal applied with an
  empty supply takes exactly one from the countdown of turns; in every other case
  (the supply is not empty, or the move is a Deal) the countdown is as it was. A
  legal Deal names an identity of positive count, so the supply, whose total is the
  sum of its counts, is not empty then.
\<close>

theorem ApplyMove_turns_to_play:
  assumes "deck_consistent (deck s)" and "ApplyMove g s m = Inr s'"
  shows "turns_to_play s' =
           (if MoveType m \<noteq> kDeal \<and> Empty (deck s) then turns_to_play s - 1
            else turns_to_play s)"
proof -
  have t: "turns_to_play s' = (if Empty (deck s) then turns_to_play s - 1 else turns_to_play s)"
    by (rule ApplyMove_turns [OF assms(2)])
  show ?thesis
  proof (cases "MoveType m = kDeal")
    case False
    with t show ?thesis by simp
  next
    case True
    from assms(2) have "MoveIsLegal g s m = Inr True"
      by (auto simp: ApplyMove_def ebind_Inr_iff split: if_splits)
    from legal_deal_not_empty [OF assms(1) this True] t show ?thesis by simp
  qed
qed


theorem ApplyMove_turns_to_play_witness:
  "deck_consistent (deck state_e) \<and> Empty (deck state_e) \<and> turns_to_play state_e = 2 \<and>
   (\<exists>s'. ApplyMove tiny_game state_e (PlayMove 0) = Inr s' \<and> turns_to_play s' = 1) \<and>
   deck_consistent (deck state_a) \<and> \<not> Empty (deck state_a) \<and> turns_to_play state_a = 2 \<and>
   (\<exists>s'. ApplyMove tiny_game state_a (DiscardMove 0) = Inr s' \<and> turns_to_play s' = 2) \<and>
   deck_consistent (deck state_c) \<and> turns_to_play state_c = 2 \<and>
   (\<exists>s'. ApplyMove tiny_game state_c (DealMove 1 1) = Inr s' \<and> turns_to_play s' = 2)"
proof -
  have e: "deck_consistent (deck state_e)" "Empty (deck state_e)" "turns_to_play state_e = 2"
      "MoveType (PlayMove 0) \<noteq> kDeal"
    by code_simp+
  have a: "deck_consistent (deck state_a)" "\<not> Empty (deck state_a)" "turns_to_play state_a = 2"
    by code_simp+
  have c: "deck_consistent (deck state_c)" "turns_to_play state_c = 2"
      "MoveType (DealMove 1 1) = kDeal"
    by code_simp+
  have "case ApplyMove tiny_game state_e (PlayMove 0) of Inr x \<Rightarrow> True | Inl e \<Rightarrow> False"
    by code_simp
  then obtain s1 where s1: "ApplyMove tiny_game state_e (PlayMove 0) = Inr s1"
    using returns_state by blast
  have "case ApplyMove tiny_game state_a (DiscardMove 0) of Inr x \<Rightarrow> True | Inl e \<Rightarrow> False"
    by code_simp
  then obtain s2 where s2: "ApplyMove tiny_game state_a (DiscardMove 0) = Inr s2"
    using returns_state by blast
  have "case ApplyMove tiny_game state_c (DealMove 1 1) of Inr x \<Rightarrow> True | Inl e \<Rightarrow> False"
    by code_simp
  then obtain s3 where s3: "ApplyMove tiny_game state_c (DealMove 1 1) = Inr s3"
    using returns_state by blast
  have "turns_to_play s1 = 1"
    using ApplyMove_turns_to_play [OF e(1) s1] e(2,3,4) by simp
  moreover have "turns_to_play s2 = 2"
    using ApplyMove_turns_to_play [OF a(1) s2] a(2,3) by simp
  moreover have "turns_to_play s3 = 2"
    using ApplyMove_turns_to_play [OF c(1) s3] c(2,3) by simp
  ultimately show ?thesis
    using e a c s1 s2 s3 by blast
qed


subsection \<open>C8: the chance outcomes and their probabilities\<close>

lemma pow2_pos [simp]: "0 < pow2 e"
  by (simp add: pow2_def)

lemma pow2_nonneg [simp]: "0 \<le> pow2 e"
  using pow2_pos [of e] by (rule less_imp_le)

lemma pow2_add: "pow2 (a + b) = pow2 a * pow2 b"
  by (simp add: pow2_def power_int_add)

lemma pow2_cancel: "pow2 (52 - e) * pow2 (e - 52) = 1"
  using pow2_add [of "52 - e" "e - 52"] by (simp add: pow2_def)

lemma pow2_nat: "0 \<le> e \<Longrightarrow> pow2 e = of_int (2 ^ nat e)"
  by (simp add: pow2_def power_int_nonneg_exp)

lemma pow2_less_iff: "pow2 a < pow2 b \<longleftrightarrow> a < b"
proof
  assume "pow2 a < pow2 b"
  show "a < b"
  proof (rule ccontr)
    assume "\<not> a < b"
    then have "b \<le> a" by simp
    then have "pow2 b \<le> pow2 a" unfolding pow2_def by (intro power_int_increasing) simp_all
    with \<open>pow2 a < pow2 b\<close> show False by simp
  qed
next
  assume "a < b"
  then show "pow2 a < pow2 b" unfolding pow2_def by (intro power_int_strict_increasing) simp_all
qed

lemma pow2_le_iff: "pow2 a \<le> pow2 b \<longleftrightarrow> a \<le> b"
  using pow2_less_iff [of b a] by (simp add: not_less [symmetric])

text \<open>Rounding to an integer moves a number by a half at most, and keeps an integer.\<close>

lemma round_half_even_near: "\<bar>of_int (round_half_even x) - x\<bar> \<le> 1 / 2"
proof -
  have "of_int \<lfloor>x\<rfloor> \<le> x" "x < of_int \<lfloor>x\<rfloor> + 1" by linarith+
  then show ?thesis
    by (auto simp: round_half_even_def Let_def abs_le_iff)
qed

lemma round_half_even_int [simp]: "round_half_even (of_int k) = k"
  by (simp add: round_half_even_def)

lemma round_half_even_eq:
  assumes "\<bar>x - of_int k\<bar> < 1 / 2"
  shows "round_half_even x = k"
proof (cases "of_int k \<le> x")
  case True
  with assms have "\<lfloor>x\<rfloor> = k" by (intro floor_unique) (simp_all add: abs_less_iff)
  with assms True show ?thesis by (simp add: round_half_even_def abs_less_iff)
next
  case False
  with assms have "\<lfloor>x\<rfloor> = k - 1" by (intro floor_unique) (simp_all add: abs_less_iff)
  with assms False show ?thesis by (simp add: round_half_even_def abs_less_iff)
qed

lemma round_half_even_tie:
  assumes "x = of_int n + 1 / 2"
  shows "round_half_even x = (if even n then n else n + 1)"
proof -
  have "\<lfloor>x\<rfloor> = n" unfolding assms by (intro floor_unique) simp_all
  then show ?thesis by (simp add: round_half_even_def assms)
qed

text \<open>\<open>binade\<close> finds the power of two at or below a positive number.\<close>

lemma bitlen_pos: "0 < a \<Longrightarrow> 1 \<le> bitlen a"
  using bitlen_eq_zero_iff [of a] bitlen_nonneg [of a] by linarith

lemma bitlen_pow2_bounds:
  assumes "0 < a"
  shows "pow2 (bitlen a - 1) \<le> of_int a" "of_int a < pow2 (bitlen a)"
proof -
  from bitlen_bounds [OF assms] have b: "2 ^ nat (bitlen a - 1) \<le> a" "a < 2 ^ nat (bitlen a)"
    by simp_all
  have p: "0 \<le> bitlen a - 1" "0 \<le> bitlen a" using bitlen_pos [OF assms] by simp_all
  have "(of_int (2 ^ nat (bitlen a - 1)) :: rat) \<le> of_int a" using b(1) by (simp only: of_int_le_iff)
  then show "pow2 (bitlen a - 1) \<le> of_int a" by (simp only: pow2_nat [OF p(1)])
  have "(of_int a :: rat) < of_int (2 ^ nat (bitlen a))" using b(2) by (simp only: of_int_less_iff)
  then show "of_int a < pow2 (bitlen a)" by (simp only: pow2_nat [OF p(2)])
qed

lemma binade_bounds:
  assumes "0 < q"
  shows "pow2 (binade q) \<le> q" "q < pow2 (binade q + 1)"
proof -
  obtain a b where ab: "quotient_of q = (a, b)" by (cases "quotient_of q")
  have b: "0 < b" using ab by (rule quotient_of_denom_pos)
  have q: "q = of_int a / of_int b" using ab by (rule quotient_of_div)
  have a: "0 < a" using assms b unfolding q by (simp add: zero_less_divide_iff)
  note A = bitlen_pow2_bounds [OF a] and B = bitlen_pow2_bounds [OF b]
  let ?e = "bitlen a - bitlen b"
  have bpos: "(0::rat) < of_int b" using b by simp
  have lo: "pow2 (?e - 1) < q"
  proof -
    have "pow2 (?e - 1) * of_int b < pow2 (?e - 1) * pow2 (bitlen b)"
      using B(2) by simp
    also have "\<dots> = pow2 (bitlen a - 1)" by (simp add: pow2_add [symmetric])
    also have "\<dots> \<le> of_int a" by (rule A(1))
    finally show ?thesis unfolding q using bpos by (simp add: pos_less_divide_eq)
  qed
  have hi: "q < pow2 (?e + 1)"
  proof -
    have "of_int a < pow2 (bitlen a)" by (rule A(2))
    also have "\<dots> = pow2 (?e + 1) * pow2 (bitlen b - 1)" by (simp add: pow2_add [symmetric])
    also have "\<dots> \<le> pow2 (?e + 1) * of_int b" using B(1) by simp
    finally show ?thesis unfolding q using bpos by (simp add: pos_divide_less_eq)
  qed
  show "pow2 (binade q) \<le> q"
    using lo by (auto simp: binade_def ab Let_def)
  show "q < pow2 (binade q + 1)"
    using hi by (auto simp: binade_def ab Let_def not_le)
qed

lemma binade_unique:
  assumes "pow2 e \<le> q" "q < pow2 (e + 1)"
  shows "binade q = e"
proof -
  have q: "0 < q" using assms(1) pow2_pos [of e] by linarith
  note b = binade_bounds [OF q]
  from b(1) assms(2) have "pow2 (binade q) < pow2 (e + 1)" by simp
  then have 1: "binade q < e + 1" by (simp only: pow2_less_iff)
  from assms(1) b(2) have "pow2 e < pow2 (binade q + 1)" by simp
  then have 2: "e < binade q + 1" by (simp only: pow2_less_iff)
  from 1 2 show ?thesis by simp
qed

text \<open>
  The double of a positive number in a known binade; the double of a number of
  \<open>(0, 1]\<close> lies within \<open>2^-53\<close> of it; an integer below \<open>2^53\<close> is converted exactly.
\<close>

lemma round_positive_eq:
  assumes "pow2 e \<le> q" "q < pow2 (e + 1)" "- 1022 \<le> e"
    and "round_half_even (q * pow2 (52 - e)) = k"
    and "of_int k * pow2 (e - 52) < pow2 1024"
  shows "round_positive q = Finite (of_int k * pow2 (e - 52))"
proof -
  have "binade q = e" using assms(1,2) by (rule binade_unique)
  then have "max (binade q) (- 1022) = e" using assms(3) by simp
  then show ?thesis using assms(4,5) by (simp add: round_positive_def Let_def not_le [symmetric])
qed

lemma round_positive_near:
  assumes "0 < q" "q \<le> 1"
  shows "\<exists>r. round_positive q = Finite r \<and> \<bar>r - q\<bar> \<le> 1 / 2 ^ 53"
proof -
  define e where "e = max (binade q) (- 1022)"
  define k where "k = round_half_even (q * pow2 (52 - e))"
  define r where "r = of_int k * pow2 (e - 52)"
  have "pow2 (binade q) \<le> pow2 0"
    using binade_bounds(1) [OF assms(1)] assms(2) by (simp add: pow2_def)
  then have "binade q \<le> 0" by (simp only: pow2_le_iff)
  then have e: "e \<le> 0" by (simp add: e_def)
  have "r - q = (of_int k - q * pow2 (52 - e)) * pow2 (e - 52)"
    using pow2_cancel [of e] by (simp add: r_def algebra_simps)
  then have "\<bar>r - q\<bar> = \<bar>of_int k - q * pow2 (52 - e)\<bar> * pow2 (e - 52)"
    by (simp add: abs_mult abs_of_pos)
  also have "\<dots> \<le> 1 / 2 * pow2 (e - 52)"
    using round_half_even_near [of "q * pow2 (52 - e)"]
    by (intro mult_right_mono) (simp_all add: k_def)
  also have "\<dots> \<le> 1 / 2 * pow2 (- 52)"
    using e by (simp add: pow2_le_iff)
  also have "\<dots> = 1 / 2 ^ 53" by (simp add: pow2_def power_int_minus_divide)
  finally have near: "\<bar>r - q\<bar> \<le> 1 / 2 ^ 53" .
  have "(1::rat) / 2 ^ 53 \<le> 1" by simp
  with near have "\<bar>r - q\<bar> \<le> 1" by linarith
  with assms(2) have "r \<le> 2" by linarith
  then have "r \<le> pow2 1" by (simp add: pow2_def)
  also have "\<dots> < pow2 1024" by (simp add: pow2_less_iff)
  finally have "r < pow2 1024" .
  then have "round_positive q = Finite r"
    by (simp add: round_positive_def Let_def e_def [symmetric] k_def [symmetric] r_def [symmetric])
  with near show ?thesis by blast
qed

lemma double_of_int_exact:
  assumes "0 \<le> n" "n < 2 ^ 53"
  shows "double_of_int n = Finite (of_int n)"
proof (cases "n = 0")
  case True
  then show ?thesis by (simp add: double_of_int_def to_double_def)
next
  case False
  with assms have n: "0 < n" by simp
  define e where "e = bitlen n - 1"
  note b = bitlen_pow2_bounds [OF n]
  have b2: "pow2 e \<le> of_int n" "of_int n < pow2 (e + 1)" using b by (simp_all add: e_def)
  have e0: "0 \<le> e" using bitlen_pos [OF n] by (simp add: e_def)
  have "(of_int n :: rat) < of_int (2 ^ 53)" using assms(2) by (simp only: of_int_less_iff)
  then have n53: "(of_int n :: rat) < pow2 53" by (simp add: pow2_def)
  with b2(1) have "pow2 e < pow2 53" by simp
  then have e52: "e \<le> 52" by (simp add: pow2_less_iff)
  then have p: "pow2 (52 - e) = of_int (2 ^ nat (52 - e))" by (intro pow2_nat) simp
  have k: "round_half_even (of_int n * pow2 (52 - e)) = n * 2 ^ nat (52 - e)"
    unfolding p of_int_mult [symmetric] by (rule round_half_even_int)
  have "of_int (n * 2 ^ nat (52 - e)) * pow2 (e - 52) =
      (of_int n :: rat) * (pow2 (52 - e) * pow2 (e - 52))"
    unfolding p by simp
  then have r: "of_int (n * 2 ^ nat (52 - e)) * pow2 (e - 52) = (of_int n :: rat)"
    by (simp only: pow2_cancel mult_1_right)
  note n53
  also have "pow2 53 < pow2 1024" by (simp add: pow2_less_iff)
  finally have lt: "of_int (n * 2 ^ nat (52 - e)) * pow2 (e - 52) < pow2 1024" by (simp only: r)
  have "round_positive (of_int n) = Finite (of_int (n * 2 ^ nat (52 - e)) * pow2 (e - 52))"
    using b2 _ k lt by (rule round_positive_eq) (use e0 in simp)
  then have "round_positive (of_int n) = Finite (of_int n)" by (simp only: r)
  then show ?thesis using n by (simp add: double_of_int_def to_double_def)
qed

lemma quotient_near:
  assumes "0 < n" "n \<le> t" "t < 2 ^ 53"
  shows "\<exists>r. double_divide (double_of_int n) (double_of_int t) = Finite r \<and>
           \<bar>r - of_int n / of_int t\<bar> \<le> 1 / 2 ^ 53"
proof -
  have n: "double_of_int n = Finite (of_int n)" using assms by (intro double_of_int_exact) simp_all
  have t: "double_of_int t = Finite (of_int t)" using assms by (intro double_of_int_exact) simp_all
  have q: "0 < (of_int n / of_int t :: rat)" "(of_int n / of_int t :: rat) \<le> 1"
    using assms by simp_all
  from round_positive_near [OF q] show ?thesis
    using assms q(1) by (simp add: n t to_double_def)
qed

text \<open>The loop of \<open>ChanceOutcomes\<close> over a catalogue of Deal moves for identities of the supply.\<close>

lemma deal_outcome:
  assumes ch: "cur_player s = kChancePlayerId" and t: "MoveType m = kDeal"
    and i: "deck_identity (deck s) (MoveColor m) (MoveRank m)"
  shows "MoveIsLegal g s m = Inr (remaining s m \<noteq> 0)"
    and "ChanceOutcomeProb g s m =
           Inr (double_divide (double_of_int (remaining s m)) (double_of_int (Size (deck s))))"
proof -
  have n: "CardCount (deck s) (MoveColor m) (MoveRank m) = Inr (remaining s m)"
    using i by (simp add: CardCount_identity remaining_def count_of_def)
  show "MoveIsLegal g s m = Inr (remaining s m \<noteq> 0)"
    using ch t n by (simp add: MoveIsLegal_def)
  show "ChanceOutcomeProb g s m =
           Inr (double_divide (double_of_int (remaining s m)) (double_of_int (Size (deck s))))"
    using n by (simp add: ChanceOutcomeProb_def)
qed

lemma chance_outcomes_from_eq:
  assumes ch: "cur_player s = kChancePlayerId"
    and ok: "list_all (\<lambda>m. MoveType m = kDeal \<and>
                deck_identity (deck s) (MoveColor m) (MoveRank m))
              (map (GetChanceOutcome g) uids)"
  shows "chance_outcomes_from g s uids (ms, ps) =
     Inr (ms @ filter (\<lambda>m. remaining s m \<noteq> 0) (map (GetChanceOutcome g) uids),
          ps @ map (\<lambda>m. double_divide (double_of_int (remaining s m))
                          (double_of_int (Size (deck s))))
                 (filter (\<lambda>m. remaining s m \<noteq> 0) (map (GetChanceOutcome g) uids)))"
  using ok
proof (induction uids arbitrary: ms ps)
  case Nil
  show ?case by simp
next
  case (Cons uid uids)
  let ?m = "GetChanceOutcome g uid"
  from Cons.prems have m: "MoveType ?m = kDeal"
      "deck_identity (deck s) (MoveColor ?m) (MoveRank ?m)"
    and rest: "list_all (\<lambda>m. MoveType m = kDeal \<and>
                deck_identity (deck s) (MoveColor m) (MoveRank m))
              (map (GetChanceOutcome g) uids)"
    by simp_all
  note o = deal_outcome [OF ch m, of g]
  show ?case
    by (simp add: Let_def o Cons.IH [OF rest])
qed

lemma ChanceOutcomes_eq:
  assumes "cur_player s = kChancePlayerId"
    and "list_all (\<lambda>m. MoveType m = kDeal \<and> deck_identity (deck s) (MoveColor m) (MoveRank m))
           (catalogue g)"
  shows "ChanceOutcomes g s =
     Inr (filter (\<lambda>m. remaining s m \<noteq> 0) (catalogue g),
          map (\<lambda>m. double_divide (double_of_int (remaining s m)) (double_of_int (Size (deck s))))
            (filter (\<lambda>m. remaining s m \<noteq> 0) (catalogue g)))"
  using chance_outcomes_from_eq [OF assms(1), of g "map int [0..<nat (MaxChanceOutcomes g)]" "[]" "[]"]
    assms(2)
  by (simp add: ChanceOutcomes_def catalogue_def)

text \<open>Sums over the catalogue.\<close>

lemma sum_list_positive_part:
  "list_all (\<lambda>x. 0 \<le> f x) xs \<Longrightarrow>
   sum_list (map f (filter (\<lambda>x. 0 < f x) xs)) = sum_list (map f xs :: int list)"
  by (induction xs) auto

lemma sum_list_quotients:
  "sum_list (map (\<lambda>x. of_int (f x) / c) xs) = (of_int (sum_list (map f xs)) / c :: rat)"
  by (induction xs) (simp_all add: add_divide_distrib)

lemma sum_all_slots:
  assumes "distinct is" "set is = {0..<length xs}"
  shows "sum_list (map (\<lambda>i. xs ! i) is) = sum_list (xs :: int list)"
proof -
  have "sum_list (map (\<lambda>i. xs ! i) is) = sum (\<lambda>i. xs ! i) (set is)"
    using assms(1) by (rule sum_list_distinct_conv_sum_set)
  also have "\<dots> = sum_list xs"
    unfolding assms(2) by (simp add: sum_list_sum_nth)
  finally show ?thesis .
qed

lemma finite_values:
  "list_all (\<lambda>m. \<exists>r. f m = Finite r \<and> Q m r) ms \<Longrightarrow>
   \<exists>rs. map f ms = map Finite rs \<and> list_all2 Q ms rs"
proof (induction ms)
  case Nil
  show ?case by simp
next
  case (Cons m ms)
  from Cons.prems obtain r where r: "f m = Finite r" "Q m r" by auto
  from Cons obtain rs where rs: "map f ms = map Finite rs" "list_all2 Q ms rs" by auto
  from r rs have "map f (m # ms) = map Finite (r # rs) \<and> list_all2 Q (m # ms) (r # rs)" by simp
  then show ?case by blast
qed

lemma sum_list_near:
  "list_all2 (\<lambda>m r. \<bar>r - q m\<bar> \<le> eps) ms rs \<Longrightarrow>
   \<bar>sum_list rs - sum_list (map q ms)\<bar> \<le> of_nat (length ms) * (eps :: rat)"
proof (induction rule: list_all2_induct)
  case Nil
  show ?case by simp
next
  case (Cons m ms r rs)
  have "\<bar>sum_list (r # rs) - sum_list (map q (m # ms))\<bar> =
        \<bar>(r - q m) + (sum_list rs - sum_list (map q ms))\<bar>" by simp
  also have "\<dots> \<le> \<bar>r - q m\<bar> + \<bar>sum_list rs - sum_list (map q ms)\<bar>" by (rule abs_triangle_ineq)
  also have "\<dots> \<le> eps + of_nat (length ms) * eps" using Cons by (intro add_mono)
  also have "\<dots> = of_nat (length (m # ms)) * eps" by (simp add: algebra_simps)
  finally show ?case .
qed

text \<open>
  Claim C8, as amended. Whenever the current actor is the chance actor, the supply
  is not empty, its total is the sum of its counts, none of them negative, and is
  below \<open>2^53\<close>, and the chance-outcome catalogue holds one Deal move for every identity
  of the supply: \<open>ChanceOutcomes\<close> returns exactly the Deal moves of the catalogue whose
  identity has a positive remaining count, in the order of the catalogue, each
  paired with the double that the division of the remaining count by the size of
  the supply yields. That double is finite and lies within \<open>2^-53\<close> of the exact
  quotient; the exact quotients sum to 1, and the returned doubles sum to 1
  within \<open>2^-53\<close> for each outcome.
\<close>

theorem ChanceOutcomes_distribution:
  assumes ch: "cur_player s = kChancePlayerId" and ne: "\<not> Empty (deck s)"
    and dc: "deck_consistent (deck s)" and cat: "catalogue_ok g (deck s)"
    and sz: "Size (deck s) < 2 ^ 53"
  shows "\<exists>ms rs. ChanceOutcomes g s = Inr (ms, map Finite rs) \<and>
     ms = filter (\<lambda>m. 0 < remaining s m) (catalogue g) \<and>
     map Finite rs =
       map (\<lambda>m. double_divide (double_of_int (remaining s m)) (double_of_int (Size (deck s)))) ms \<and>
     list_all2 (\<lambda>m r. \<bar>r - exact_quotient s m\<bar> \<le> 1 / 2 ^ 53) ms rs \<and>
     sum_list (map (exact_quotient s) ms) = 1 \<and>
     \<bar>sum_list rs - 1\<bar> \<le> of_nat (length ms) / 2 ^ 53"
proof -
  let ?d = "deck s"
  let ?cc = "card_count (deck s)"
  let ?f = "\<lambda>m. double_divide (double_of_int (remaining s m)) (double_of_int (Size (deck s)))"
  define ms where "ms = filter (\<lambda>m. 0 < remaining s m) (catalogue g)"
  from cat have ids: "list_all (\<lambda>m. MoveType m = kDeal \<and>
        deck_identity ?d (MoveColor m) (MoveRank m)) (catalogue g)"
    and di: "distinct (map (slot_of ?d) (catalogue g))"
    and cover: "set (map (slot_of ?d) (catalogue g)) = {0..<length ?cc}"
    by (simp_all add: catalogue_ok_def)
  from dc have tot: "total_count ?d = sum_list ?cc" and nn: "list_all (\<lambda>n. 0 \<le> n) ?cc"
    by (simp_all add: deck_consistent_def)
  have slot: "remaining s m = ?cc ! slot_of ?d m \<and> slot_of ?d m < length ?cc"
    if "m \<in> set (catalogue g)" for m
  proof -
    from ids that have "deck_identity ?d (MoveColor m) (MoveRank m)"
      by (simp add: list_all_iff)
    then have "0 \<le> CardToIndex ?d (MoveColor m) (MoveRank m)"
        "CardToIndex ?d (MoveColor m) (MoveRank m) < int (length ?cc)"
      by (simp_all add: CardToIndex_nonneg deck_identity_def)
    then show ?thesis
      by (simp add: remaining_def count_of_def slot_of_def nat_less_iff)
  qed
  have rem_nn: "0 \<le> remaining s m" if "m \<in> set (catalogue g)" for m
    using slot [OF that] nn by (simp add: list_all_length)
  have rem_le: "remaining s m \<le> Size ?d" if "m \<in> set (catalogue g)" for m
    using slot [OF that] nth_le_sum_list [OF nn, of "slot_of ?d m"] tot by (simp add: Size_def)
  have "filter (\<lambda>m. remaining s m \<noteq> 0) (catalogue g) = ms"
    unfolding ms_def using rem_nn by (intro filter_cong) (auto simp: order_less_le)
  with ChanceOutcomes_eq [OF ch ids] have co: "ChanceOutcomes g s = Inr (ms, map ?f ms)"
    by simp
  have "list_all (\<lambda>m. \<exists>r. ?f m = Finite r \<and> \<bar>r - exact_quotient s m\<bar> \<le> 1 / 2 ^ 53) ms"
    unfolding list_all_iff
  proof
    fix m
    assume "m \<in> set ms"
    then have m: "m \<in> set (catalogue g)" "0 < remaining s m" by (simp_all add: ms_def)
    from quotient_near [OF m(2) rem_le [OF m(1)] sz]
    show "\<exists>r. ?f m = Finite r \<and> \<bar>r - exact_quotient s m\<bar> \<le> 1 / 2 ^ 53"
      by (simp add: exact_quotient_def)
  qed
  from finite_values [OF this] obtain rs where rs: "map ?f ms = map Finite rs"
    "list_all2 (\<lambda>m r. \<bar>r - exact_quotient s m\<bar> \<le> 1 / 2 ^ 53) ms rs"
    by blast
  have e: "map (remaining s) (catalogue g) = map (\<lambda>i. ?cc ! i) (map (slot_of ?d) (catalogue g))"
    using slot by simp
  have "sum_list (map (remaining s) (catalogue g)) = sum_list ?cc"
    unfolding e using di cover by (rule sum_all_slots)
  moreover have "sum_list (map (remaining s) ms) = sum_list (map (remaining s) (catalogue g))"
    unfolding ms_def using rem_nn by (intro sum_list_positive_part) (simp add: list_all_iff)
  ultimately have pos_sum: "sum_list (map (remaining s) ms) = Size ?d"
    using tot by (simp add: Size_def)
  have sz_ne: "Size ?d \<noteq> 0" using ne by (simp add: Empty_def Size_def)
  have "sum_list (map (exact_quotient s) ms) =
        sum_list (map (\<lambda>m. of_int (remaining s m) / of_int (Size ?d)) ms)"
    by (simp add: exact_quotient_def [abs_def])
  also have "\<dots> = of_int (sum_list (map (remaining s) ms)) / of_int (Size ?d)"
    by (rule sum_list_quotients)
  also have "\<dots> = 1" using sz_ne by (simp add: pos_sum)
  finally have one: "sum_list (map (exact_quotient s) ms) = 1" .
  from sum_list_near [OF rs(2)] one
  have bound: "\<bar>sum_list rs - 1\<bar> \<le> of_nat (length ms) / 2 ^ 53" by simp
  from co rs one bound show ?thesis
    unfolding ms_def [symmetric] by (intro exI [of _ ms] exI [of _ rs]) simp
qed

text \<open>
  The claim as first stated fails in the freshly constructed state of the game of
  two players, where the chance actor is to act and the supply holds six cards.
  The four Deal moves are returned; the double paired with the Deal of colour 0
  and rank 0 is not the quotient \<open>2 / 6\<close> of its remaining count and the size of the
  supply, and the four doubles do not sum to 1, neither exactly nor added as
  doubles from left to right.
\<close>

theorem ChanceOutcomes_counterexample:
  "cur_player (NewHanabiState tiny_game 0) = kChancePlayerId \<and>
   \<not> Empty (deck (NewHanabiState tiny_game 0)) \<and>
   ChanceOutcomes tiny_game (NewHanabiState tiny_game 0) =
     Inr ([DealMove 0 0, DealMove 0 1, DealMove 1 0, DealMove 1 1],
          [Finite (6004799503160661 / 18014398509481984),
           Finite (6004799503160661 / 36028797018963968),
           Finite (6004799503160661 / 18014398509481984),
           Finite (6004799503160661 / 36028797018963968)]) \<and>
   remaining (NewHanabiState tiny_game 0) (DealMove 0 0) = 2 \<and>
   Size (deck (NewHanabiState tiny_game 0)) = 6 \<and>
   Finite (6004799503160661 / 18014398509481984) \<noteq> Finite (2 / 6) \<and>
   sum_list [6004799503160661 / 18014398509481984, 6004799503160661 / 36028797018963968,
             6004799503160661 / 18014398509481984, 6004799503160661 / 36028797018963968]
     = (18014398509481983 / 18014398509481984 :: rat) \<and>
   double_sum [Finite (6004799503160661 / 18014398509481984),
               Finite (6004799503160661 / 36028797018963968),
               Finite (6004799503160661 / 18014398509481984),
               Finite (6004799503160661 / 36028797018963968)]
     = Finite (9007199254740991 / 9007199254740992)"
proof -
  let ?s = "NewHanabiState tiny_game 0"
  have v: "cur_player ?s = kChancePlayerId" "\<not> Empty (deck ?s)"
      "catalogue tiny_game = [DealMove 0 0, DealMove 0 1, DealMove 1 0, DealMove 1 1]"
      "remaining ?s (DealMove 0 0) = 2" "remaining ?s (DealMove 0 1) = 1"
      "remaining ?s (DealMove 1 0) = 2" "remaining ?s (DealMove 1 1) = 1"
      "Size (deck ?s) = 6"
      "list_all (\<lambda>m. MoveType m = kDeal \<and> deck_identity (deck ?s) (MoveColor m) (MoveRank m))
         (catalogue tiny_game)"
    by code_simp+
  have third: "double_divide (double_of_int 2) (double_of_int 6) =
      Finite (6004799503160661 / 18014398509481984)"
  proof -
    have "round_positive (1 / 3) = Finite (of_int 6004799503160661 * pow2 (- 2 - 52))"
      by (rule round_positive_eq) (simp_all add: pow2_def round_half_even_eq)
    then show ?thesis
      by (simp add: double_of_int_exact to_double_def pow2_def)
  qed
  have sixth: "double_divide (double_of_int 1) (double_of_int 6) =
      Finite (6004799503160661 / 36028797018963968)"
  proof -
    have "round_positive (1 / 6) = Finite (of_int 6004799503160661 * pow2 (- 3 - 52))"
      by (rule round_positive_eq) (simp_all add: pow2_def round_half_even_eq)
    then show ?thesis
      by (simp add: double_of_int_exact to_double_def pow2_def)
  qed
  have co: "ChanceOutcomes tiny_game ?s =
     Inr ([DealMove 0 0, DealMove 0 1, DealMove 1 0, DealMove 1 1],
          [Finite (6004799503160661 / 18014398509481984),
           Finite (6004799503160661 / 36028797018963968),
           Finite (6004799503160661 / 18014398509481984),
           Finite (6004799503160661 / 36028797018963968)])"
    unfolding ChanceOutcomes_eq [OF v(1) v(9)] by (simp add: v third sixth)
  have s1: "to_double (6004799503160661 / 18014398509481984) =
      Finite (6004799503160661 / 18014398509481984)"
  proof -
    have "round_positive (6004799503160661 / 18014398509481984) =
        Finite (of_int 6004799503160661 * pow2 (- 2 - 52))"
      by (rule round_positive_eq) (simp_all add: pow2_def round_half_even_eq)
    then show ?thesis by (simp add: to_double_def pow2_def)
  qed
  have s2: "to_double (18014398509481983 / 36028797018963968) = Finite (1 / 2)"
  proof -
    have k: "round_half_even (18014398509481983 / 36028797018963968 * pow2 (52 - (- 2))) =
        9007199254740992"
      using round_half_even_tie [of "18014398509481983 / 2" 9007199254740991]
      by (simp add: pow2_def)
    have "round_positive (18014398509481983 / 36028797018963968) =
        Finite (of_int 9007199254740992 * pow2 (- 2 - 52))"
      by (rule round_positive_eq [OF _ _ _ k]) (simp_all add: pow2_def)
    then show ?thesis by (simp add: to_double_def pow2_def)
  qed
  have s3: "to_double (15011998757901653 / 18014398509481984) =
      Finite (3752999689475413 / 4503599627370496)"
  proof -
    have k: "round_half_even (15011998757901653 / 18014398509481984 * pow2 (52 - (- 1))) =
        7505999378950826"
      using round_half_even_tie [of "15011998757901653 / 2" 7505999378950826]
      by (simp add: pow2_def)
    have "round_positive (15011998757901653 / 18014398509481984) =
        Finite (of_int 7505999378950826 * pow2 (- 1 - 52))"
      by (rule round_positive_eq [OF _ _ _ k]) (simp_all add: pow2_def)
    then show ?thesis by (simp add: to_double_def pow2_def)
  qed
  have s4: "to_double (36028797018963965 / 36028797018963968) =
      Finite (9007199254740991 / 9007199254740992)"
  proof -
    have "round_positive (36028797018963965 / 36028797018963968) =
        Finite (of_int 9007199254740991 * pow2 (- 1 - 52))"
      by (rule round_positive_eq) (simp_all add: pow2_def round_half_even_eq)
    then show ?thesis by (simp add: to_double_def pow2_def)
  qed
  have fp: "double_sum [Finite (6004799503160661 / 18014398509481984),
               Finite (6004799503160661 / 36028797018963968),
               Finite (6004799503160661 / 18014398509481984),
               Finite (6004799503160661 / 36028797018963968)]
     = Finite (9007199254740991 / 9007199254740992)"
    by (simp add: double_sum_def s1 s2 s3 s4)
  from v(1,2,4,8) co fp show ?thesis by simp
qed

theorem ChanceOutcomes_distribution_witness:
  "cur_player (NewHanabiState tiny_game 0) = kChancePlayerId \<and>
   \<not> Empty (deck (NewHanabiState tiny_game 0)) \<and>
   deck_consistent (deck (NewHanabiState tiny_game 0)) \<and>
   catalogue_ok tiny_game (deck (NewHanabiState tiny_game 0)) \<and>
   Size (deck (NewHanabiState tiny_game 0)) < 2 ^ 53 \<and>
   (\<exists>rs. ChanceOutcomes tiny_game (NewHanabiState tiny_game 0) =
       Inr ([DealMove 0 0, DealMove 0 1, DealMove 1 0, DealMove 1 1], map Finite rs) \<and>
     list_all2 (\<lambda>m r. \<bar>r - exact_quotient (NewHanabiState tiny_game 0) m\<bar> \<le> 1 / 2 ^ 53)
       [DealMove 0 0, DealMove 0 1, DealMove 1 0, DealMove 1 1] rs \<and>
     sum_list (map (exact_quotient (NewHanabiState tiny_game 0))
       [DealMove 0 0, DealMove 0 1, DealMove 1 0, DealMove 1 1]) = 1 \<and>
     \<bar>sum_list rs - 1\<bar> \<le> 4 / 2 ^ 53)"
proof -
  let ?s = "NewHanabiState tiny_game 0"
  have h: "cur_player ?s = kChancePlayerId" "\<not> Empty (deck ?s)" "deck_consistent (deck ?s)"
      "catalogue_ok tiny_game (deck ?s)" "Size (deck ?s) < 2 ^ 53"
    by code_simp+
  have f: "filter (\<lambda>m. 0 < remaining ?s m) (catalogue tiny_game) =
      [DealMove 0 0, DealMove 0 1, DealMove 1 0, DealMove 1 1]"
    by code_simp
  from ChanceOutcomes_distribution [OF h] obtain ms rs where r:
    "ChanceOutcomes tiny_game ?s = Inr (ms, map Finite rs)"
    "ms = filter (\<lambda>m. 0 < remaining ?s m) (catalogue tiny_game)"
    "list_all2 (\<lambda>m r. \<bar>r - exact_quotient ?s m\<bar> \<le> 1 / 2 ^ 53) ms rs"
    "sum_list (map (exact_quotient ?s) ms) = 1"
    "\<bar>sum_list rs - 1\<bar> \<le> of_nat (length ms) / 2 ^ 53"
    by blast
  from r(2) f have ms: "ms = [DealMove 0 0, DealMove 0 1, DealMove 1 0, DealMove 1 1]" by simp
  from r(1,3,4,5) have
    "ChanceOutcomes tiny_game ?s =
       Inr ([DealMove 0 0, DealMove 0 1, DealMove 1 0, DealMove 1 1], map Finite rs) \<and>
     list_all2 (\<lambda>m r. \<bar>r - exact_quotient ?s m\<bar> \<le> 1 / 2 ^ 53)
       [DealMove 0 0, DealMove 0 1, DealMove 1 0, DealMove 1 1] rs \<and>
     sum_list (map (exact_quotient ?s) [DealMove 0 0, DealMove 0 1, DealMove 1 0, DealMove 1 1]) = 1 \<and>
     \<bar>sum_list rs - 1\<bar> \<le> 4 / 2 ^ 53"
    unfolding ms by simp
  then have "\<exists>rs. ChanceOutcomes tiny_game ?s =
       Inr ([DealMove 0 0, DealMove 0 1, DealMove 1 0, DealMove 1 1], map Finite rs) \<and>
     list_all2 (\<lambda>m r. \<bar>r - exact_quotient ?s m\<bar> \<le> 1 / 2 ^ 53)
       [DealMove 0 0, DealMove 0 1, DealMove 1 0, DealMove 1 1] rs \<and>
     sum_list (map (exact_quotient ?s) [DealMove 0 0, DealMove 0 1, DealMove 1 0, DealMove 1 1]) = 1 \<and>
     \<bar>sum_list rs - 1\<bar> \<le> 4 / 2 ^ 53"
    by blast
  with h show ?thesis by simp
qed
subsection \<open>C9: drawing from the card supply\<close>

text \<open>
  Claim C9. Drawing from the card supply never fails. \<open>DealCard(rng)\<close> on an empty
  supply returns the invalid card and leaves the supply as it is, and so does
  \<open>DealCard(color, rank)\<close> on a slot whose remaining count is zero. In every other
  case (counts are never negative, so the count is positive; the index that the
  discrete distribution samples from a non-empty supply has a positive count) the
  draw returns the drawn identity, decrements the remaining count of that identity
  and the total remaining size by exactly one, and changes no other count.
\<close>

theorem DealCard_never_fails:
  "(Empty d \<longrightarrow> DealCard_rng d i = Inr (InvalidCard, d)) \<and>
   (CardCount d c r = Inr 0 \<longrightarrow> DealCard d c r = Inr (InvalidCard, d)) \<and>
   (deck_identity d c r \<and> CardCount d c r = Inr n \<and> 0 < n \<longrightarrow>
      (\<exists>d'. DealCard d c r = Inr (HanabiCard c r, d') \<and> CardCount d' c r = Inr (n - 1) \<and>
         Size d' = Size d - 1 \<and>
         (\<forall>c' r'. deck_identity d c' r' \<and> (c', r') \<noteq> (c, r) \<longrightarrow>
            CardCount d' c' r' = CardCount d c' r'))) \<and>
   (\<not> Empty d \<and> 0 < num_ranks d \<and> elem (card_count d) i = Inr n \<and> 0 < n \<longrightarrow>
      (\<exists>d'. DealCard_rng d i = Inr (HanabiCard (IndexToColor d i) (IndexToRank d i), d') \<and>
         CardCount d' (IndexToColor d i) (IndexToRank d i) = Inr (n - 1) \<and>
         Size d' = Size d - 1 \<and>
         (\<forall>j. j \<noteq> i \<longrightarrow> elem (card_count d') j = elem (card_count d) j)))"
proof (intro conjI impI)
  assume "Empty d"
  then show "DealCard_rng d i = Inr (InvalidCard, d)"
    by (simp add: DealCard_rng_def)
next
  assume "CardCount d c r = Inr 0"
  then show "DealCard d c r = Inr (InvalidCard, d)"
    by (simp add: DealCard_def CardCount_def Let_def)
next
  assume "deck_identity d c r \<and> CardCount d c r = Inr n \<and> 0 < n"
  then show "\<exists>d'. DealCard d c r = Inr (HanabiCard c r, d') \<and> CardCount d' c r = Inr (n - 1) \<and>
         Size d' = Size d - 1 \<and>
         (\<forall>c' r'. deck_identity d c' r' \<and> (c', r') \<noteq> (c, r) \<longrightarrow>
            CardCount d' c' r' = CardCount d c' r')"
    using DealCard_positive by blast
next
  assume "\<not> Empty d \<and> 0 < num_ranks d \<and> elem (card_count d) i = Inr n \<and> 0 < n"
  then show "\<exists>d'. DealCard_rng d i = Inr (HanabiCard (IndexToColor d i) (IndexToRank d i), d') \<and>
         CardCount d' (IndexToColor d i) (IndexToRank d i) = Inr (n - 1) \<and>
         Size d' = Size d - 1 \<and>
         (\<forall>j. j \<noteq> i \<longrightarrow> elem (card_count d') j = elem (card_count d) j)"
    using DealCard_rng_positive by blast
qed

theorem DealCard_never_fails_witness:
  "Empty deck_e \<and> DealCard_rng deck_e 0 = Inr (InvalidCard, deck_e) \<and>
   CardCount deck_a 1 0 = Inr 0 \<and> DealCard deck_a 1 0 = Inr (InvalidCard, deck_a) \<and>
   deck_identity deck_a 0 1 \<and> CardCount deck_a 0 1 = Inr 1 \<and>
   (\<exists>d'. DealCard deck_a 0 1 = Inr (HanabiCard 0 1, d') \<and> CardCount d' 0 1 = Inr 0 \<and>
      Size d' = 3) \<and>
   \<not> Empty deck_a \<and> elem (card_count deck_a) 3 = Inr 1 \<and>
   (\<exists>d'. DealCard_rng deck_a 3 = Inr (HanabiCard 1 1, d') \<and> CardCount d' 1 1 = Inr 0 \<and>
      Size d' = 3)"
proof -
  have e: "Empty deck_e"
    by (simp add: Empty_def deck_e_def)
  have z: "CardCount deck_a 1 0 = Inr 0"
    by (simp add: CardCount_def CardToIndex_def elem_def deck_a_def)
  have p: "deck_identity deck_a 0 1 \<and> CardCount deck_a 0 1 = Inr 1 \<and> (0::int) < 1"
    by (simp add: deck_identity_def CardCount_def CardToIndex_def elem_def deck_a_def)
  have q: "\<not> Empty deck_a \<and> 0 < num_ranks deck_a \<and> elem (card_count deck_a) 3 = Inr 1 \<and> (0::int) < 1"
    by (simp add: Empty_def elem_def deck_a_def)
  have ic: "IndexToColor deck_a 3 = 1" "IndexToRank deck_a 3 = 1"
    by (simp_all add: IndexToColor_def IndexToRank_def deck_a_def signed_divide_int_def
        signed_modulo_int_def)
  have sz: "Size deck_a = 4"
    by (simp add: Size_def deck_a_def)
  note t1 = DealCard_never_fails [of deck_e 0 0 0 0]
  note t2 = DealCard_never_fails [of deck_a 0 1 0 0]
  note t3 = DealCard_never_fails [of deck_a 0 0 1 1]
  note t4 = DealCard_never_fails [of deck_a 3 0 0 1]
  from t1 e have a1: "DealCard_rng deck_e 0 = Inr (InvalidCard, deck_e)" by blast
  from t2 z have a2: "DealCard deck_a 1 0 = Inr (InvalidCard, deck_a)" by blast
  from t3 p have a3: "\<exists>d'. DealCard deck_a 0 1 = Inr (HanabiCard 0 1, d') \<and>
      CardCount d' 0 1 = Inr 0 \<and> Size d' = 3"
    unfolding sz by fastforce
  from t4 q have a4: "\<exists>d'. DealCard_rng deck_a 3 = Inr (HanabiCard 1 1, d') \<and>
      CardCount d' 1 1 = Inr 0 \<and> Size d' = 3"
    unfolding sz ic by fastforce
  from e a1 z a2 p a3 q a4 show ?thesis by blast
qed

subsection \<open>C10: replacing a hand slot\<close>

lemma SetHandCard_effect:
  assumes p: "0 \<le> p" "p < int (length (hands s))"
    and i: "0 \<le> i" "i < int (length (Cards (hands s ! nat p)))"
    and v: "IsValid c"
    and old: "card_identity (deck s) (Cards (hands s ! nat p) ! nat i)"
    and new: "card_identity (deck s) c"
  shows "\<exists>s'. SetHandCard g s p i c = Inr s' \<and>
           num_ranks (deck s') = num_ranks (deck s) \<and>
           length (card_count (deck s')) = length (card_count (deck s)) \<and>
           (\<forall>c' r'. deck_identity (deck s) c' r' \<longrightarrow>
              count_of (deck s') c' r' =
                count_of (deck s) c' r'
                + (if HanabiCard c' r' = Cards (hands s ! nat p) ! nat i then 1 else 0)
                - (if HanabiCard c' r' = c \<and>
                      0 < count_of (deck s) (Color c) (Rank c)
                          + (if c = Cards (hands s ! nat p) ! nat i then 1 else 0)
                   then 1 else 0)) \<and>
           hands s' = (hands s)[nat p := (hands s ! nat p)
               \<lparr>Cards := (Cards (hands s ! nat p))[nat i := c],
                Knowledge := (Knowledge (hands s ! nat p))
                               [nat i := NewCardKnowledge (NumColors g) (NumRanks g)]\<rparr>] \<and>
           s' = s\<lparr>deck := deck s', hands := hands s'\<rparr>"
proof -
  let ?hand = "hands s ! nat p"
  let ?old = "Cards ?hand ! nat i"
  let ?k = "NewCardKnowledge (NumColors g) (NumRanks g)"
  let ?hand' = "?hand\<lparr>Cards := (Cards ?hand)[nat i := c], Knowledge := (Knowledge ?hand)[nat i := ?k]\<rparr>"
  have oid: "deck_identity (deck s) (Color ?old) (Rank ?old)"
    using old by (simp add: card_identity_def)
  have nid: "deck_identity (deck s) (Color c) (Rank c)"
    using new by (simp add: card_identity_def)
  have ov: "IsValid ?old"
    using oid by (simp add: IsValid_def deck_identity_def)
  from AddCard_identity [OF oid] obtain d1 where d1:
    "AddCard (deck s) (Color ?old) (Rank ?old) = Inr d1"
    "num_ranks d1 = num_ranks (deck s)" "length (card_count d1) = length (card_count (deck s))"
    "\<And>c' r'. deck_identity (deck s) c' r' \<Longrightarrow>
       count_of d1 c' r' = count_of (deck s) c' r' + (if (c', r') = (Color ?old, Rank ?old) then 1 else 0)"
    by blast
  have same: "deck_identity d1 = deck_identity (deck s)"
    using d1(2,3) by (rule deck_identity_cong)
  have nid1: "deck_identity d1 (Color c) (Rank c)"
    using nid by (simp add: same)
  from DealCard_identity [OF nid1] obtain d2 where d2:
    "DealCard d1 (Color c) (Rank c) =
       Inr (if 0 < count_of d1 (Color c) (Rank c) then HanabiCard (Color c) (Rank c) else InvalidCard, d2)"
    "num_ranks d2 = num_ranks d1" "length (card_count d2) = length (card_count d1)"
    "\<And>c' r'. deck_identity d1 c' r' \<Longrightarrow>
       count_of d2 c' r' =
         count_of d1 c' r' - (if (c', r') = (Color c, Rank c) \<and> 0 < count_of d1 (Color c) (Rank c) then 1 else 0)"
    by blast
  let ?s' = "s\<lparr>deck := d2, hands := (hands s)[nat p := ?hand']\<rparr>"
  have run: "SetHandCard g s p i c = Inr ?s'"
    using p i v ov d1(1) d2(1) by (simp add: SetHandCard_def elem_def SetCard_def)
  have eqc: "(c' = Color x \<and> r' = Rank x) \<longleftrightarrow> HanabiCard c' r' = x" for c' r' x
    by (cases x) auto
  have cnt: "count_of d2 c' r' =
      count_of (deck s) c' r' + (if HanabiCard c' r' = ?old then 1 else 0)
      - (if HanabiCard c' r' = c \<and>
            0 < count_of (deck s) (Color c) (Rank c) + (if c = ?old then 1 else 0)
         then 1 else 0)"
    if "deck_identity (deck s) c' r'" for c' r'
  proof -
    have a: "count_of d1 (Color c) (Rank c) =
        count_of (deck s) (Color c) (Rank c) + (if c = ?old then 1 else 0)"
      using d1(4) [OF nid] by (cases c; cases ?old) auto
    have b: "count_of d2 c' r' =
         count_of d1 c' r' - (if HanabiCard c' r' = c \<and> 0 < count_of d1 (Color c) (Rank c) then 1 else 0)"
      using d2(4) [of c' r'] that by (simp add: same eqc)
    show ?thesis
      unfolding b a using d1(4) [OF that] by (simp add: eqc)
  qed
  show ?thesis
    using run cnt d1(2,3) d2(2,3) by (intro exI [of _ ?s']) simp
qed

text \<open>
  Claim C10. A call \<open>SetHandCard(player, card_index, card)\<close> that satisfies its
  preconditions (a valid player, a valid index into that player's hand, a valid
  card; the old and the new card are identities of the supply) signals no error.
  The old card's identity is restored to the supply (its count goes up by one), then
  the count of the requested identity goes down by one if it was positive, and the
  slot is set to the requested card with fresh knowledge in every case: with a
  requested identity of remaining count zero the supply is left as restored and the
  slot is replaced all the same. Nothing else of the state changes.
\<close>

theorem SetHandCard_rebalance:
  assumes p: "0 \<le> p" "p < int (length (hands s))"
    and i: "0 \<le> i" "i < int (length (Cards (hands s ! nat p)))"
    and v: "IsValid c"
    and old: "card_identity (deck s) (Cards (hands s ! nat p) ! nat i)"
    and new: "card_identity (deck s) c"
  shows "\<exists>s'. SetHandCard g s p i c = Inr s' \<and>
           (\<forall>c' r' n k. deck_identity (deck s) c' r' \<and> CardCount (deck s) c' r' = Inr n \<and>
               CardCount (deck s) (Color c) (Rank c) = Inr k \<longrightarrow>
              CardCount (deck s') c' r' =
                Inr (n + (if HanabiCard c' r' = Cards (hands s ! nat p) ! nat i then 1 else 0)
                     - (if HanabiCard c' r' = c \<and>
                           0 < k + (if c = Cards (hands s ! nat p) ! nat i then 1 else 0)
                        then 1 else 0))) \<and>
           hands s' = (hands s)[nat p := (hands s ! nat p)
               \<lparr>Cards := (Cards (hands s ! nat p))[nat i := c],
                Knowledge := (Knowledge (hands s ! nat p))
                               [nat i := NewCardKnowledge (NumColors g) (NumRanks g)]\<rparr>] \<and>
           s' = s\<lparr>deck := deck s', hands := hands s'\<rparr>"
proof -
  from SetHandCard_effect [OF assms, of g] obtain s' where s':
    "SetHandCard g s p i c = Inr s'"
    "num_ranks (deck s') = num_ranks (deck s)"
    "length (card_count (deck s')) = length (card_count (deck s))"
    "\<And>c' r'. deck_identity (deck s) c' r' \<Longrightarrow>
              count_of (deck s') c' r' =
                count_of (deck s) c' r'
                + (if HanabiCard c' r' = Cards (hands s ! nat p) ! nat i then 1 else 0)
                - (if HanabiCard c' r' = c \<and>
                      0 < count_of (deck s) (Color c) (Rank c)
                          + (if c = Cards (hands s ! nat p) ! nat i then 1 else 0)
                   then 1 else 0)"
    "hands s' = (hands s)[nat p := (hands s ! nat p)
               \<lparr>Cards := (Cards (hands s ! nat p))[nat i := c],
                Knowledge := (Knowledge (hands s ! nat p))
                               [nat i := NewCardKnowledge (NumColors g) (NumRanks g)]\<rparr>]"
    "s' = s\<lparr>deck := deck s', hands := hands s'\<rparr>"
    by blast
  note shape = s'(2,3)
  have "CardCount (deck s') c' r' =
                Inr (n + (if HanabiCard c' r' = Cards (hands s ! nat p) ! nat i then 1 else 0)
                     - (if HanabiCard c' r' = c \<and>
                           0 < k + (if c = Cards (hands s ! nat p) ! nat i then 1 else 0)
                        then 1 else 0))"
    if "deck_identity (deck s) c' r'" "CardCount (deck s) c' r' = Inr n"
      "CardCount (deck s) (Color c) (Rank c) = Inr k" for c' r' n k
  proof -
    have "deck_identity (deck s') c' r'"
      using that(1) deck_identity_cong [OF shape] by simp
    then have "CardCount (deck s') c' r' = Inr (count_of (deck s') c' r')"
      by (simp add: CardCount_identity count_of_def)
    moreover have "count_of (deck s) c' r' = n"
      using that(1,2) by (simp add: CardCount_identity count_of_def)
    moreover have "count_of (deck s) (Color c) (Rank c) = k"
      using that(3) new by (simp add: CardCount_identity count_of_def card_identity_def)
    ultimately show ?thesis
      using s'(4) [OF that(1)] by simp
  qed
  with s'(1,5,6) show ?thesis by blast
qed

theorem SetHandCard_rebalance_witness:
  "(\<exists>s'. SetHandCard tiny_game state_a 0 1 (HanabiCard 1 1) = Inr s' \<and>
      CardCount (deck state_a) 1 1 = Inr 1 \<and> CardCount (deck s') 1 1 = Inr 0 \<and>
      CardCount (deck state_a) 0 1 = Inr 0 \<and> CardCount (deck s') 0 1 = Inr 1 \<and>
      Cards (hands s' ! 0) = [HanabiCard 1 0, HanabiCard 1 1]) \<and>
   (\<exists>s'. SetHandCard tiny_game state_a 0 1 (HanabiCard 0 0) = Inr s' \<and>
      CardCount (deck state_a) 0 0 = Inr 0 \<and> CardCount (deck s') 0 0 = Inr 0 \<and>
      Cards (hands s' ! 0) = [HanabiCard 1 0, HanabiCard 0 0])"
proof -
  have h: "(0::int) \<le> 0" "0 < int (length (hands state_a))"
      "(0::int) \<le> 1" "1 < int (length (Cards (hands state_a ! nat 0)))"
      "card_identity (deck state_a) (Cards (hands state_a ! nat 0) ! nat 1)"
    by (simp_all add: state_a_simps card_identity_def deck_identity_def CardToIndex_def)
  have c1: "IsValid (HanabiCard 1 1)" "card_identity (deck state_a) (HanabiCard 1 1)"
    by (simp_all add: state_a_simps card_identity_def deck_identity_def CardToIndex_def IsValid_def)
  have c2: "IsValid (HanabiCard 0 0)" "card_identity (deck state_a) (HanabiCard 0 0)"
    by (simp_all add: state_a_simps card_identity_def deck_identity_def CardToIndex_def IsValid_def)
  have id: "deck_identity (deck state_a) 1 1" "deck_identity (deck state_a) 0 1"
      "deck_identity (deck state_a) 0 0"
    by (simp_all add: state_a_simps deck_identity_def CardToIndex_def)
  have n: "CardCount (deck state_a) 1 1 = Inr 1" "CardCount (deck state_a) 0 1 = Inr 0"
      "CardCount (deck state_a) 0 0 = Inr 0"
    by (simp_all add: state_a_simps CardCount_def CardToIndex_def elem_def)
  have old: "Cards (hands state_a ! nat 0) ! nat 1 = HanabiCard 0 1"
      "Cards (hands state_a ! nat 0) = [HanabiCard 1 0, HanabiCard 0 1]"
    by (simp_all add: state_a_simps)
  let ?old = "Cards (hands state_a ! nat 0) ! nat 1"
  let ?k = "NewCardKnowledge (NumColors tiny_game) (NumRanks tiny_game)"
  from SetHandCard_rebalance [OF h(1-4) c1(1) h(5) c1(2), of tiny_game]
  obtain s1 where s1: "SetHandCard tiny_game state_a 0 1 (HanabiCard 1 1) = Inr s1"
    "\<And>c' r' n k. deck_identity (deck state_a) c' r' \<and> CardCount (deck state_a) c' r' = Inr n \<and>
        CardCount (deck state_a) (Color (HanabiCard 1 1)) (Rank (HanabiCard 1 1)) = Inr k \<Longrightarrow>
       CardCount (deck s1) c' r' =
         Inr (n + (if HanabiCard c' r' = ?old then 1 else 0)
              - (if HanabiCard c' r' = HanabiCard 1 1 \<and>
                    0 < k + (if HanabiCard 1 1 = ?old then 1 else 0) then 1 else 0))"
    "hands s1 = (hands state_a)[nat 0 := (hands state_a ! nat 0)
        \<lparr>Cards := (Cards (hands state_a ! nat 0))[nat 1 := HanabiCard 1 1],
         Knowledge := (Knowledge (hands state_a ! nat 0))[nat 1 := ?k]\<rparr>]"
    by blast
  from SetHandCard_rebalance [OF h(1-4) c2(1) h(5) c2(2), of tiny_game]
  obtain s2 where s2: "SetHandCard tiny_game state_a 0 1 (HanabiCard 0 0) = Inr s2"
    "\<And>c' r' n k. deck_identity (deck state_a) c' r' \<and> CardCount (deck state_a) c' r' = Inr n \<and>
        CardCount (deck state_a) (Color (HanabiCard 0 0)) (Rank (HanabiCard 0 0)) = Inr k \<Longrightarrow>
       CardCount (deck s2) c' r' =
         Inr (n + (if HanabiCard c' r' = ?old then 1 else 0)
              - (if HanabiCard c' r' = HanabiCard 0 0 \<and>
                    0 < k + (if HanabiCard 0 0 = ?old then 1 else 0) then 1 else 0))"
    "hands s2 = (hands state_a)[nat 0 := (hands state_a ! nat 0)
        \<lparr>Cards := (Cards (hands state_a ! nat 0))[nat 1 := HanabiCard 0 0],
         Knowledge := (Knowledge (hands state_a ! nat 0))[nat 1 := ?k]\<rparr>]"
    by blast
  have a1: "CardCount (deck s1) 1 1 = Inr 0" "CardCount (deck s1) 0 1 = Inr 1"
    using s1(2) [of 1 1 1 1] s1(2) [of 0 1 0 1] id n old(1) by simp_all
  have b1: "Cards (hands s1 ! 0) = [HanabiCard 1 0, HanabiCard 1 1]"
    unfolding s1(3) by (simp add: state_a_simps)
  have a2: "CardCount (deck s2) 0 0 = Inr 0"
    using s2(2) [of 0 0 0 0] id n old(1) by simp
  have b2: "Cards (hands s2 ! 0) = [HanabiCard 1 0, HanabiCard 0 0]"
    unfolding s2(3) by (simp add: state_a_simps)
  from s1(1) s2(1) a1 b1 a2 b2 n show ?thesis by blast
qed

end
